theory Spec2Isabelle
  imports Main "HOL-Library.AList" "HOL-Library.Word"
begin

section \<open>The tornado transport of the tarantool client\<close>

text \<open>
  A shallow embedding of \<^verbatim>\<open>src/tarantool/tornado.py\<close>: the connection object with
  its waiter table, the reader and writer loops, request dispatch with retry, and the
  schema cache. The coroutines are scheduled cooperatively, so the code between two
  suspension points (\<^verbatim>\<open>yield\<close>) runs atomically; each such segment is a function from
  the connection state to the new state.
\<close>

subsection \<open>Data\<close>

type_synonym byte = "8 word"
type_synonym bytes = "byte list"

text \<open>Values of a result row, as far as the transport looks at them.\<close>

datatype val = IntV int | StrV string

type_synonym row = "val list"

text \<open>
  An identifier of a space or an index is a name or a number; the source tells them
  apart with \<^verbatim>\<open>isinstance(space, str)\<close>.
\<close>

datatype ident = ByName string | ById int

text \<open>
  The exceptions the modelled code raises. \<^verbatim>\<open>SchemaError\<close> carries the two arguments
  its message is formatted from (the word \<^verbatim>\<open>name\<close> or \<^verbatim>\<open>id\<close>, and the identifier).
  \<^verbatim>\<open>KeyError\<close> is a failed dictionary lookup, \<^verbatim>\<open>TypeError\<close> an operator applied to
  operands of the wrong type (\<^verbatim>\<open>None += bytes\<close>, \<^verbatim>\<open>str + Response\<close>),
  \<^verbatim>\<open>UnboundLocalError\<close> a read of a local variable that was never assigned,
  \<^verbatim>\<open>CancelledError\<close> what awaiting a cancelled future raises, and \<^verbatim>\<open>BadYieldError\<close>
  what a coroutine raises that yields an object tornado cannot wait for.
\<close>

datatype error =
    NetworkError string
  | DatabaseError int string
  | SchemaError string ident
  | KeyError int
  | TypeError
  | UnboundLocalError
  | CancelledError
  | BadYieldError

text \<open>
  The fields of a decoded \<^verbatim>\<open>Response\<close> that the transport reads. A response is also
  the sequence of its rows (\<^verbatim>\<open>len(array)\<close>, \<^verbatim>\<open>array[0]\<close>).
\<close>

record response =
  sync :: int
  return_code :: int
  completion_status :: int
  return_message :: string
  rows :: "row list"

text \<open>
  A constructed \<^verbatim>\<open>Request\<close>: its correlation id (\<^verbatim>\<open>request.sync\<close>) and its encoding
  (\<^verbatim>\<open>bytes(request)\<close>).
\<close>

record request =
  request_sync :: int
  request_bytes :: bytes

text \<open>
  A \<^verbatim>\<open>tornado.concurrent.Future\<close> is an object with identity; the model names each
  future by the number of futures created before it. A future is resolved by
  \<^verbatim>\<open>set_result\<close>, \<^verbatim>\<open>set_exception\<close> or \<^verbatim>\<open>cancel\<close>.
\<close>

type_synonym future = nat

datatype outcome = Res response | Exc error | Cancelled

text \<open>
  \<^verbatim>\<open>_do_close\<close> is called by \<^verbatim>\<open>close\<close>, for a caller, and by the reader loop.
\<close>

datatype closer = Caller | Reader

text \<open>
  The state of a \<^verbatim>\<open>Connection\<close>. \<^verbatim>\<open>waiters\<close> is the dictionary \<^verbatim>\<open>_waiters\<close> in insertion
  order; \<^verbatim>\<open>write_buf\<close> and \<^verbatim>\<open>write_event\<close> are \<^verbatim>\<open>None\<close> while disconnected.
  \<^verbatim>\<open>next_future\<close> counts the futures created so far, \<^verbatim>\<open>resolved\<close> lists every
  resolution of a future in the order the calls were made, \<^verbatim>\<open>sent\<close> is what was written
  to the stream, \<^verbatim>\<open>log\<close> the responses passed to \<^verbatim>\<open>logger.error\<close>, \<^verbatim>\<open>notices\<close> the
  messages passed to \<^verbatim>\<open>warn\<close>, and \<^verbatim>\<open>reader_buf\<close> the reader coroutine's local \<^verbatim>\<open>buf\<close>,
  which lives across its suspensions.

  \<^verbatim>\<open>lock_held\<close> tells whether the semaphore \<^verbatim>\<open>self.lock\<close> is taken. \<^verbatim>\<open>closing\<close> holds the
  call of \<^verbatim>\<open>_do_close\<close> that is suspended at line 204, with who made it and its argument
  \<^verbatim>\<open>exc\<close>; \<^verbatim>\<open>reader_waits\<close> tells that the reader is suspended at line 202, waiting for
  the lock.

  Two fields describe the tornado package the connection runs on, whose behaviour
  depends on its version. \<^verbatim>\<open>yields_none\<close>: a coroutine may yield \<^verbatim>\<open>None\<close> and is then
  suspended for one turn of the loop (from version 4.5 on; before that the yield raises
  \<^verbatim>\<open>BadYieldError\<close>). \<^verbatim>\<open>cancels\<close>: \<^verbatim>\<open>Future.cancel()\<close> resolves a pending future as
  cancelled (from version 5.0 on; before that it does nothing).
\<close>

record conn =
  connected :: bool
  req_num :: int
  waiters :: "(int \<times> future) list"
  next_future :: nat
  resolved :: "(future \<times> outcome) list"
  write_buf :: "bytes option"
  write_event :: "bool option"
  sent :: bytes
  log :: "response list"
  notices :: "string list"
  reader_buf :: bytes
  lock_held :: bool
  closing :: "(closer \<times> error option) option"
  reader_waits :: bool
  yields_none :: bool
  cancels :: bool

text \<open>
  \<^verbatim>\<open>Connection.__init__\<close>: created disconnected, with an empty waiter table and a free
  lock. The initial state is one on tornado 5.
\<close>

definition init_conn :: conn where
  "init_conn =
     \<lparr>connected = False, req_num = 0, waiters = [], next_future = 0, resolved = [],
      write_buf = None, write_event = None, sent = [], log = [], notices = [],
      reader_buf = [], lock_held = False, closing = None, reader_waits = False,
      yields_none = True, cancels = True\<rparr>"

subsection \<open>Correlation ids\<close>

text \<open>
  \<^verbatim>\<open>generate_sync\<close>: the counter is incremented and reset to zero once it exceeds
  10000000; a new future is stored under the id, replacing whatever was there.
\<close>

definition generate_sync :: "conn \<Rightarrow> int \<times> conn" where
  "generate_sync c =
     (let n = req_num c + 1;
          n = (if n > 10000000 then 0 else n)
      in (n, c\<lparr>req_num := n,
                waiters := AList.update n (next_future c) (waiters c),
                next_future := Suc (next_future c)\<rparr>))"

text \<open>The ids of the first \<open>k\<close> requests of a connection, newest first.\<close>

fun syncs :: "nat \<Rightarrow> conn \<Rightarrow> int list \<times> conn" where
  "syncs 0 c = ([], c)"
| "syncs (Suc k) c =
     (let (ss, c1) = syncs k c; (s, c2) = generate_sync c1 in (s # ss, c2))"

subsection \<open>Futures\<close>

text \<open>
  A future is unresolved until the first call that resolves it; awaiting it yields the
  outcome of that call.
\<close>

definition outcome_of :: "future \<Rightarrow> conn \<Rightarrow> outcome option" where
  "outcome_of w c = map_of (resolved c) w"

definition unresolved :: "future \<Rightarrow> conn \<Rightarrow> bool" where
  "unresolved w c = (outcome_of w c = None)"

definition times_resolved :: "future \<Rightarrow> conn \<Rightarrow> nat" where
  "times_resolved w c = length (filter (\<lambda>p. fst p = w) (resolved c))"

text \<open>
  The invariant of the waiter table: every correlation id has one entry, no future is
  stored under two ids, every stored future exists and is unresolved, and only futures
  that exist were ever resolved.
\<close>

definition waiters_ok :: "conn \<Rightarrow> bool" where
  "waiters_ok c =
     (distinct (map fst (waiters c)) \<and> distinct (map snd (waiters c)) \<and>
      (\<forall>w \<in> set (map snd (waiters c)). w < next_future c \<and> unresolved w c) \<and>
      (\<forall>w \<in> set (map fst (resolved c)). w < next_future c))"

subsection \<open>Connecting and closing\<close>

text \<open>
  \<^verbatim>\<open>connect\<close> for a connection without credentials: a no-op when connected; otherwise
  the write event and the empty write buffer are created, the connection is marked
  connected and the reader starts with an empty buffer.
\<close>

definition connect :: "conn \<Rightarrow> conn" where
  "connect c =
     (if connected c then c
      else c\<lparr>write_event := Some False, write_buf := Some [], connected := True,
             reader_buf := []\<rparr>)"

text \<open>
  Where a call of \<^verbatim>\<open>_do_close\<close> stands when it first stops: it has returned at once,
  it waits for the lock at line 202, it has raised, or it is suspended at line 204.
\<close>

datatype closed = Returned_at_once | Waiting | Failed error | Yielded

text \<open>
  \<^verbatim>\<open>_do_close(exc)\<close> from the call to its first stop (lines 199 to 204). A disconnected
  connection returns at once. With the lock taken the call waits at line 202 and
  nothing changes. Otherwise the lock is acquired and the connection is marked
  disconnected; then the call yields the result of \<^verbatim>\<open>TCPClient.close()\<close>, which is
  \<^verbatim>\<open>None\<close>: either this raises \<^verbatim>\<open>BadYieldError\<close>, and the \<^verbatim>\<open>with\<close> block releases the
  lock, or the call is suspended, holding the lock, until the loop resumes it.
\<close>

definition do_close :: "closer \<Rightarrow> error option \<Rightarrow> conn \<Rightarrow> closed \<times> conn" where
  "do_close who exc c =
     (if \<not> connected c then (Returned_at_once, c)
      else if lock_held c then (Waiting, c)
      else if \<not> yields_none c then (Failed BadYieldError, c\<lparr>connected := False\<rparr>)
      else (Yielded, c\<lparr>connected := False, lock_held := True, closing := Some (who, exc)\<rparr>))"

text \<open>
  What a waiter is resolved with when the connection is closed: it is cancelled when
  \<^verbatim>\<open>exc\<close> is \<^verbatim>\<open>None\<close>, and gets the exception otherwise.
\<close>

definition close_outcome :: "error option \<Rightarrow> outcome" where
  "close_outcome exc = (case exc of None \<Rightarrow> Cancelled | Some e \<Rightarrow> Exc e)"

text \<open>
  \<^verbatim>\<open>_do_close(exc)\<close> from its resumption to its end (lines 205 to 219): the write event
  and buffer are dropped, \<^verbatim>\<open>cancel()\<close> or \<^verbatim>\<open>set_exception(exc)\<close> is called on every
  waiter of the table, the table is replaced by an empty one, and the end of the
  \<^verbatim>\<open>with\<close> block releases the lock. A \<^verbatim>\<open>cancel()\<close> that does nothing leaves the waiter
  unresolved. The task objects of the two loops are not part of the model.
\<close>

definition close_finish :: "error option \<Rightarrow> conn \<Rightarrow> conn" where
  "close_finish exc c =
     c\<lparr>write_event := None, write_buf := None,
       resolved := resolved c @
         (if exc = None \<and> \<not> cancels c then []
          else map (\<lambda>(s, waiter). (waiter, close_outcome exc)) (waiters c)),
       waiters := [], lock_held := False, closing := None\<rparr>"


subsection \<open>The reader loop\<close>

text \<open>Python's \<^verbatim>\<open>xs[i:j]\<close> for indices that are not negative.\<close>

definition slice :: "'a list \<Rightarrow> nat \<Rightarrow> nat \<Rightarrow> 'a list" where
  "slice xs i j = take (j - i) (drop i xs)"

text \<open>
  The body of the inner loop after a frame was cut out (lines 263 to 276): the response
  is looked up by its \<^verbatim>\<open>sync\<close>; without a waiter it is logged and skipped, otherwise the
  waiter gets a \<^verbatim>\<open>DatabaseError\<close> (return code not zero) or the response, and its entry
  is deleted.
\<close>

definition deliver :: "response \<Rightarrow> conn \<Rightarrow> conn" where
  "deliver response c =
     (case map_of (waiters c) (sync response) of
        None \<Rightarrow> c\<lparr>log := log c @ [response]\<rparr>
      | Some waiter \<Rightarrow>
          c\<lparr>resolved := resolved c @
                 [(waiter,
                   if return_code response \<noteq> 0
                   then Exc (DatabaseError (return_code response) (return_message response))
                   else Res response)],
            waiters := AList.delete (sync response) (waiters c)\<rparr>)"

text \<open>
  The inner loop (lines 253 to 276). \<open>unpackb\<close> is \<^verbatim>\<open>msgpack.unpackb\<close> on the five
  bytes of the length prefix, a number that is not negative; \<open>decode\<close> is the
  constructor \<^verbatim>\<open>Response(self, body)\<close>. Both belong to other packages and are
  parameters of the model. The result is the final value of \<^verbatim>\<open>curr\<close> (written
  \<open>cur\<close>) and the connection.
\<close>

function parse_frames ::
  "(bytes \<Rightarrow> nat) \<Rightarrow> (bytes \<Rightarrow> response) \<Rightarrow> bytes \<Rightarrow> nat \<Rightarrow> conn \<Rightarrow> nat \<times> conn" where
  "parse_frames unpackb decode buf cur c =
     (if length buf - cur \<ge> 5 then
        (if length buf - cur < 5 + unpackb (slice buf cur (cur + 5)) then (cur, c)
         else parse_frames unpackb decode buf
                (cur + (5 + unpackb (slice buf cur (cur + 5))))
                (deliver
                   (decode (slice buf (cur + 5)
                      (cur + 5 + unpackb (slice buf cur (cur + 5))))) c))
      else (cur, c))"
  by pat_completeness auto
termination
  by (relation "measure (\<lambda>(unpackb, decode, buf, cur, c). length buf - cur)") auto

text \<open>
  The payloads the inner loop passes to the decoder, in order: the values of \<^verbatim>\<open>body\<close>
  in line 263.
\<close>

function handed :: "(bytes \<Rightarrow> nat) \<Rightarrow> bytes \<Rightarrow> nat \<Rightarrow> bytes list" where
  "handed unpackb buf cur =
     (if length buf - cur \<ge> 5 then
        (if length buf - cur < 5 + unpackb (slice buf cur (cur + 5)) then []
         else slice buf (cur + 5) (cur + 5 + unpackb (slice buf cur (cur + 5))) #
              handed unpackb buf (cur + (5 + unpackb (slice buf cur (cur + 5)))))
      else [])"
  by pat_completeness auto
termination
  by (relation "measure (\<lambda>(unpackb, buf, cur). length buf - cur)") auto

text \<open>
  The outer loop from line 249 to line 280: the bytes \<open>tmp_buf\<close> are appended to the
  buffer, the complete frames are processed, and the buffer is cut once.
\<close>

definition reader_body ::
  "(bytes \<Rightarrow> nat) \<Rightarrow> (bytes \<Rightarrow> response) \<Rightarrow> bytes \<Rightarrow> conn \<Rightarrow> conn" where
  "reader_body unpackb decode tmp_buf c =
     (let buf = reader_buf c @ tmp_buf;
          (cur, c2) = parse_frames unpackb decode buf 0 c
      in c2\<lparr>reader_buf := (if cur \<noteq> 0 then drop cur buf else buf)\<rparr>)"

text \<open>
  One pass of the outer loop (lines 244 to 280) for the bytes \<open>tmp_buf\<close> that
  \<^verbatim>\<open>read_bytes\<close> returned, up to the reader's next suspension. An empty read calls
  \<^verbatim>\<open>_do_close\<close> with a \<^verbatim>\<open>NetworkError\<close>: when that call waits for the lock the reader
  waits with it; when it raises, the reader ends; when it is suspended at line 204 the
  reader goes on once the call has been resumed.
\<close>

definition reader_pass ::
  "(bytes \<Rightarrow> nat) \<Rightarrow> (bytes \<Rightarrow> response) \<Rightarrow> bytes \<Rightarrow> conn \<Rightarrow> conn" where
  "reader_pass unpackb decode tmp_buf c =
     (if tmp_buf = [] then
        (case do_close Reader
                (Some (NetworkError ''Lost connection to server during query'')) c of
           (Returned_at_once, c1) \<Rightarrow> reader_body unpackb decode tmp_buf c1
         | (Waiting, c1) \<Rightarrow> c1\<lparr>reader_waits := True\<rparr>
         | (Failed e, c1) \<Rightarrow> c1
         | (Yielded, c1) \<Rightarrow> c1)
      else reader_body unpackb decode tmp_buf c)"

subsection \<open>The writer loop\<close>

text \<open>
  One pass of the writer loop (lines 227 to 234) once the write event is set: a buffer
  that is not empty is swapped for an empty one and written to the stream, and the
  event is cleared. A buffer that is \<^verbatim>\<open>None\<close> or empty is skipped.
\<close>

definition writer_pass :: "conn \<Rightarrow> conn" where
  "writer_pass c =
     (case write_buf c of
        None \<Rightarrow> c\<lparr>write_event := Some False\<rparr>
      | Some to_write \<Rightarrow>
          (if to_write \<noteq> []
           then c\<lparr>write_buf := Some [], sent := sent c @ to_write, write_event := Some False\<rparr>
           else c\<lparr>write_event := Some False\<rparr>))"

text \<open>
  What the loop runs while a caller is suspended: the reader consumes a read, the
  writer drains the buffer, or the call of \<^verbatim>\<open>_do_close\<close> that is suspended at line 204 is
  resumed. The reader and the writer run only while connected, the reader only while
  it does not wait for the lock, and the writer only once the event is set. A call
  suspended at line 204 holds the lock and has marked the connection disconnected, and
  \<^verbatim>\<open>connect\<close>, which alone marks it connected, needs that lock: the call is resumed on a
  disconnected connection. When the reader made the call, it goes on at line 249 with
  its empty read.
\<close>

datatype activity = Recv bytes | Drain | Resume

fun run_activity ::
  "(bytes \<Rightarrow> nat) \<Rightarrow> (bytes \<Rightarrow> response) \<Rightarrow> activity \<Rightarrow> conn \<Rightarrow> conn" where
  "run_activity unpackb decode (Recv tmp_buf) c =
     (if connected c \<and> \<not> reader_waits c then reader_pass unpackb decode tmp_buf c else c)"
| "run_activity unpackb decode Drain c =
     (if connected c \<and> write_event c = Some True then writer_pass c else c)"
| "run_activity unpackb decode Resume c =
     (case closing c of
        None \<Rightarrow> c
      | Some (who, exc) \<Rightarrow>
          (if connected c then c
           else (case who of
                   Caller \<Rightarrow> close_finish exc c
                 | Reader \<Rightarrow> reader_body unpackb decode [] (close_finish exc c))))"

fun run_activities ::
  "(bytes \<Rightarrow> nat) \<Rightarrow> (bytes \<Rightarrow> response) \<Rightarrow> activity list \<Rightarrow> conn \<Rightarrow> conn" where
  "run_activities unpackb decode [] c = c"
| "run_activities unpackb decode (a # acts) c =
     run_activities unpackb decode acts (run_activity unpackb decode a c)"

subsection \<open>Request dispatch with retry\<close>

text \<open>
  A call of \<^verbatim>\<open>_send_request\<close> has returned a response, has raised, or is still
  suspended on its waiter.
\<close>

datatype call = Suspended | Raised error | Returned response

text \<open>
  Lines 293 to 296, the segment of one attempt before the suspension: the waiter is
  looked up (\<^verbatim>\<open>KeyError\<close> without an entry), the request's bytes are appended to the
  write buffer (\<^verbatim>\<open>TypeError\<close> when the buffer is \<^verbatim>\<open>None\<close>) and the write event is set.
\<close>

definition send_attempt :: "request \<Rightarrow> conn \<Rightarrow> (error + future) \<times> conn" where
  "send_attempt request c =
     (case map_of (waiters c) (request_sync request) of
        None \<Rightarrow> (Inl (KeyError (request_sync request)), c)
      | Some waiter \<Rightarrow>
          (case write_buf c of
             None \<Rightarrow> (Inl TypeError, c)
           | Some wb \<Rightarrow>
               (Inr waiter,
                c\<lparr>write_buf := Some (wb @ request_bytes request), write_event := Some True\<rparr>)))"

text \<open>
  Lines 304 and 305, after a response with completion status 1: a new future is stored
  under the same id and the retry notice is emitted.
\<close>

definition retry_register :: "request \<Rightarrow> response \<Rightarrow> conn \<Rightarrow> conn" where
  "retry_register request response c =
     c\<lparr>waiters := AList.update (request_sync request) (next_future c) (waiters c),
       next_future := Suc (next_future c),
       notices := notices c @ [return_message response]\<rparr>"

text \<open>
  The activities of the background loops during the next suspension, and the schedule
  that is left after it. A schedule that has run out means that nothing more happens.
\<close>

definition next_acts :: "activity list list \<Rightarrow> activity list" where
  "next_acts sched = (case sched of [] \<Rightarrow> [] | acts # _ \<Rightarrow> acts)"

text \<open>
  The loop of \<^verbatim>\<open>_send_request\<close> (lines 292 to 308) with \<open>n\<close> attempts left.
  \<open>response\<close> is the local variable of that name (\<open>None\<close> while unassigned). At
  \<^verbatim>\<open>yield waiter\<close> the background loops run as the schedule says; the call resumes with
  the outcome of its waiter, or stays suspended when the waiter is still unresolved.
\<close>

fun send_loop ::
  "(bytes \<Rightarrow> nat) \<Rightarrow> (bytes \<Rightarrow> response) \<Rightarrow> nat \<Rightarrow> request \<Rightarrow> activity list list \<Rightarrow>
   response option \<Rightarrow> conn \<Rightarrow> call \<times> conn" where
  "send_loop unpackb decode 0 request sched response c =
     (case response of
        None \<Rightarrow> (Raised UnboundLocalError, c)
      | Some r \<Rightarrow> (Raised (DatabaseError (return_code r) (return_message r)), c))"
| "send_loop unpackb decode (Suc n) request sched response c =
     (case send_attempt request c of
        (Inl e, c1) \<Rightarrow> (Raised e, c1)
      | (Inr waiter, c1) \<Rightarrow>
          (let c2 = run_activities unpackb decode (next_acts sched) c1
           in case outcome_of waiter c2 of
                None \<Rightarrow> (Suspended, c2)
              | Some Cancelled \<Rightarrow> (Raised CancelledError, c2)
              | Some (Exc e) \<Rightarrow> (Raised e, c2)
              | Some (Res r) \<Rightarrow>
                  (if completion_status r \<noteq> 1 then (Returned r, c2)
                   else send_loop unpackb decode n request (tl sched) (Some r)
                          (retry_register request r c2))))"

text \<open>
  \<^verbatim>\<open>_send_request\<close>: connect when disconnected, then the loop with
  \<^verbatim>\<open>RETRY_MAX_ATTEMPTS\<close> attempts. The constant is defined in another package and is a
  parameter of the model.
\<close>

definition send_request ::
  "(bytes \<Rightarrow> nat) \<Rightarrow> (bytes \<Rightarrow> response) \<Rightarrow> nat \<Rightarrow> request \<Rightarrow> activity list list \<Rightarrow>
   conn \<Rightarrow> call \<times> conn" where
  "send_request unpackb decode RETRY_MAX_ATTEMPTS request sched c =
     send_loop unpackb decode RETRY_MAX_ATTEMPTS request sched None
       (if \<not> connected c then connect c else c)"

text \<open>
  The values the local variable \<^verbatim>\<open>response\<close> takes during a run of the loop, in order:
  the responses the successive awaits resumed with.
\<close>

fun responses_seen ::
  "(bytes \<Rightarrow> nat) \<Rightarrow> (bytes \<Rightarrow> response) \<Rightarrow> nat \<Rightarrow> request \<Rightarrow> activity list list \<Rightarrow>
   conn \<Rightarrow> response list" where
  "responses_seen unpackb decode 0 request sched c = []"
| "responses_seen unpackb decode (Suc n) request sched c =
     (case send_attempt request c of
        (Inl e, c1) \<Rightarrow> []
      | (Inr waiter, c1) \<Rightarrow>
          (let c2 = run_activities unpackb decode (next_acts sched) c1
           in case outcome_of waiter c2 of
                Some (Res r) \<Rightarrow>
                  r # (if completion_status r \<noteq> 1 then []
                       else responses_seen unpackb decode n request (tl sched)
                              (retry_register request r c2))
              | _ \<Rightarrow> []))"

text \<open>
  An operation such as \<^verbatim>\<open>insert\<close> with a numeric space constructs its request and
  passes it to \<^verbatim>\<open>_send_request\<close>. Constructing a request (package
  \<^verbatim>\<open>tarantool.request\<close>) takes the request's \<^verbatim>\<open>sync\<close> from \<^verbatim>\<open>generate_sync\<close>; \<open>encode\<close>
  gives the bytes of the request for that id.
\<close>

definition new_request :: "(int \<Rightarrow> bytes) \<Rightarrow> conn \<Rightarrow> request \<times> conn" where
  "new_request encode c =
     (let (s, c1) = generate_sync c
      in (\<lparr>request_sync = s, request_bytes = encode s\<rparr>, c1))"

definition dispatch ::
  "(bytes \<Rightarrow> nat) \<Rightarrow> (bytes \<Rightarrow> response) \<Rightarrow> nat \<Rightarrow> (int \<Rightarrow> bytes) \<Rightarrow> activity list list \<Rightarrow>
   conn \<Rightarrow> call \<times> conn" where
  "dispatch unpackb decode RETRY_MAX_ATTEMPTS encode sched c =
     (let (request, c1) = new_request encode c
      in send_request unpackb decode RETRY_MAX_ATTEMPTS request sched c1)"

text \<open>
  Everything that was handed to the write buffer and not dropped: the bytes already
  written to the stream, followed by the buffer.
\<close>

definition outbound :: "conn \<Rightarrow> bytes" where
  "outbound c = sent c @ (case write_buf c of None \<Rightarrow> [] | Some wb \<Rightarrow> wb)"

subsection \<open>The schema cache\<close>

record schema_index =
  iid :: int
  index_name :: string

record schema_space =
  sid :: int
  name :: string
  indexes :: "(ident \<times> schema_index) list"

type_synonym schema = "(ident \<times> schema_space) list"

text \<open>
  Modelled from the spec: the constructor \<^verbatim>\<open>SchemaSpace(array, schema)\<close> of the package
  \<^verbatim>\<open>tarantool.schema\<close>, which is not part of this repository. It builds the
  descriptor (id, name, empty index registry) from the metadata row and caches it, under
  its id and under its name. How the id and the name are read from the row is left to
  the parameters \<open>row_sid\<close> and \<open>row_name\<close>.
\<close>

definition SchemaSpace ::
  "(row \<Rightarrow> int) \<Rightarrow> (row \<Rightarrow> string) \<Rightarrow> row \<Rightarrow> schema \<Rightarrow> schema_space \<times> schema" where
  "SchemaSpace row_sid row_name array schema =
     (let sp = \<lparr>sid = row_sid array, name = row_name array, indexes = []\<rparr>
      in (sp, AList.update (ByName (name sp)) sp (AList.update (ById (sid sp)) sp schema)))"

text \<open>
  \<^verbatim>\<open>Schema.get_space\<close>, lines 75 to 92, the part under the lock. \<open>selected\<close> is what
  \<^verbatim>\<open>self.con.select\<close> on the system space returned or raised. With more than one row
  the argument of \<^verbatim>\<open>SchemaError\<close> is the sum of a string and the response, which raises
  \<^verbatim>\<open>TypeError\<close> before the \<^verbatim>\<open>SchemaError\<close> is built.
\<close>

definition temp_name :: "ident \<Rightarrow> string" where
  "temp_name space = (case space of ByName _ \<Rightarrow> ''name'' | ById _ \<Rightarrow> ''id'')"

definition get_space_locked ::
  "(row \<Rightarrow> int) \<Rightarrow> (row \<Rightarrow> string) \<Rightarrow> schema \<Rightarrow> ident \<Rightarrow> error + response \<Rightarrow>
   (error + schema_space) \<times> schema" where
  "get_space_locked row_sid row_name schema space selected =
     (case map_of schema space of
        Some sp \<Rightarrow> (Inr sp, schema)
      | None \<Rightarrow>
          (case selected of
             Inl e \<Rightarrow> (Inl e, schema)
           | Inr array \<Rightarrow>
               (if length (rows array) > 1 then (Inl TypeError, schema)
                else if length (rows array) = 0 \<or> length (rows array ! 0) = 0
                  then (Inl (SchemaError (temp_name space) space), schema)
                else (case SchemaSpace row_sid row_name (rows array ! 0) schema of
                        (sp, schema') \<Rightarrow> (Inr sp, schema')))))"

text \<open>
  \<^verbatim>\<open>Schema.get_space\<close>: a cached entry is returned at once (lines 66 to 69); on a miss
  the part under the lock runs.
\<close>

definition get_space ::
  "(row \<Rightarrow> int) \<Rightarrow> (row \<Rightarrow> string) \<Rightarrow> schema \<Rightarrow> ident \<Rightarrow> error + response \<Rightarrow>
   (error + schema_space) \<times> schema" where
  "get_space row_sid row_name schema space selected =
     (case map_of schema space of
        Some sp \<Rightarrow> (Inr sp, schema)
      | None \<Rightarrow> get_space_locked row_sid row_name schema space selected)"

subsection \<open>A codec for running the model\<close>

text \<open>
  The length prefix as the server writes it: the marker byte of a 32-bit unsigned
  integer and its four bytes, most significant first.
\<close>

definition uint32 :: "bytes \<Rightarrow> nat" where
  "uint32 bs =
     (case bs of
        [m, a, b, c, d] \<Rightarrow> ((unat a * 256 + unat b) * 256 + unat c) * 256 + unat d
      | _ \<Rightarrow> 0)"

text \<open>
  A small response format for examples: the first three bytes of a body hold the sync,
  the return code and the completion status, and the bytes after them are the
  characters of the message.
\<close>

definition tiny_response :: "bytes \<Rightarrow> response" where
  "tiny_response body =
     (case body of
        s # rc # st # msg \<Rightarrow>
          \<lparr>sync = int (unat s), return_code = int (unat rc),
           completion_status = int (unat st),
           return_message = map (\<lambda>b. char_of (unat b)) msg, rows = []\<rparr>
      | _ \<Rightarrow>
          \<lparr>sync = - 1, return_code = 0, completion_status = 0, return_message = [],
           rows = []\<rparr>)"

text \<open>
  The frame of a body shorter than 256 bytes: the five bytes of the prefix, then the
  body.
\<close>

definition frame_of :: "bytes \<Rightarrow> bytes" where
  "frame_of body = [0xce, 0, 0, 0, of_nat (length body)] @ body"

definition tiny_frame :: "byte \<Rightarrow> byte \<Rightarrow> byte \<Rightarrow> bytes" where
  "tiny_frame s rc st = frame_of [s, rc, st]"

text \<open>
  Decoders of a metadata row for examples: the id is the first field of the row and the
  name the third.
\<close>

definition first_int :: "row \<Rightarrow> int" where
  "first_int array = (case array of IntV i # _ \<Rightarrow> i | _ \<Rightarrow> 0)"

definition third_str :: "row \<Rightarrow> string" where
  "third_str array = (case array of _ # _ # StrV s # _ \<Rightarrow> s | _ \<Rightarrow> [])"

section \<open>Lemmas\<close>

subsection \<open>Association lists\<close>

lemma snd_set_delete: "set (map snd (AList.delete k al)) \<subseteq> set (map snd al)"
  by (induction al) auto

lemma distinct_snd_delete: "distinct (map snd al) \<Longrightarrow> distinct (map snd (AList.delete k al))"
proof (induction al)
  case Nil then show ?case by simp
next
  case (Cons p al)
  have "set (map snd (AList.delete k al)) \<subseteq> set (map snd al)" by (rule snd_set_delete)
  with Cons show ?case by (cases p) auto
qed

lemma snd_set_update: "set (map snd (AList.update k v al)) \<subseteq> insert v (set (map snd al))"
  by (induction al) auto

lemma distinct_snd_update:
  "distinct (map snd al) \<Longrightarrow> v \<notin> set (map snd al) \<Longrightarrow> distinct (map snd (AList.update k v al))"
proof (induction al)
  case Nil then show ?case by simp
next
  case (Cons p al)
  have "set (map snd (AList.update k v al)) \<subseteq> insert v (set (map snd al))" by (rule snd_set_update)
  with Cons show ?case by (cases p) auto
qed

lemma map_of_snd_mem: "map_of al k = Some v \<Longrightarrow> v \<in> set (map snd al)"
  by (induction al) (auto split: if_splits)

lemma delete_removes_value:
  "distinct (map snd al) \<Longrightarrow> map_of al k = Some v \<Longrightarrow> v \<notin> set (map snd (AList.delete k al))"
proof (induction al)
  case Nil then show ?case by simp
next
  case (Cons p al)
  obtain a b where p: "p = (a, b)" by (cases p)
  show ?case
  proof (cases "a = k")
    case True
    with Cons.prems p have "b = v" "v \<notin> set (map snd al)" by auto
    moreover have "set (map snd (AList.delete k al)) \<subseteq> set (map snd al)" by (rule snd_set_delete)
    ultimately show ?thesis using p True by auto
  next
    case False
    with Cons.prems p have m: "map_of al k = Some v" and d: "distinct (map snd al)" and nb: "b \<notin> set (map snd al)" by auto
    from m have "v \<in> set (map snd al)" by (rule map_of_snd_mem)
    with nb have "b \<noteq> v" by auto
    with Cons.IH[OF d m] p False show ?thesis by auto
  qed
qed

lemma update_removes_value:
  "distinct (map snd al) \<Longrightarrow> map_of al k = Some old \<Longrightarrow> v \<noteq> old \<Longrightarrow>
   old \<notin> set (map snd (AList.update k v al))"
proof (induction al)
  case Nil then show ?case by simp
next
  case (Cons p al)
  obtain a b where p: "p = (a, b)" by (cases p)
  show ?case
  proof (cases "a = k")
    case True
    with Cons.prems p show ?thesis by auto
  next
    case False
    with Cons.prems p have m: "map_of al k = Some old" and d: "distinct (map snd al)" and nb: "b \<notin> set (map snd al)" by auto
    from m have "old \<in> set (map snd al)" by (rule map_of_snd_mem)
    with nb have "b \<noteq> old" by auto
    with Cons.IH[OF d m Cons.prems(3)] p False show ?thesis by auto
  qed
qed

subsection \<open>Correlation ids\<close>

lemma generate_sync_fst:
  "fst (generate_sync c) = (if req_num c + 1 \<le> 10000000 then req_num c + 1 else 0)"
  by (simp add: generate_sync_def Let_def)

lemma generate_sync_req_num: "req_num (snd (generate_sync c)) = fst (generate_sync c)"
  by (simp add: generate_sync_def Let_def)

lemma syncs_range:
  "0 \<le> req_num c \<Longrightarrow> req_num c \<le> 10000000 \<Longrightarrow>
   (\<forall>s \<in> set (fst (syncs k c)). 0 \<le> s \<and> s \<le> 10000000) \<and>
   0 \<le> req_num (snd (syncs k c)) \<and> req_num (snd (syncs k c)) \<le> 10000000"
proof (induction k)
  case 0
  then show ?case by simp
next
  case (Suc k)
  obtain ss c1 where k: "syncs k c = (ss, c1)" by (cases "syncs k c")
  obtain s c2 where g: "generate_sync c1 = (s, c2)" by (cases "generate_sync c1")
  from Suc k have ih: "\<forall>s \<in> set ss. 0 \<le> s \<and> s \<le> 10000000" "0 \<le> req_num c1" "req_num c1 \<le> 10000000"
    by auto
  from g have s: "s = fst (generate_sync c1)" and c2: "c2 = snd (generate_sync c1)" by auto
  from ih s have r: "0 \<le> s \<and> s \<le> 10000000" by (simp add: generate_sync_fst)
  moreover have "req_num c2 = s" using s c2 by (simp add: generate_sync_req_num)
  ultimately show ?case using k g ih by simp
qed

subsection \<open>Delivering a response\<close>

lemma deliver_no_waiter:
  "map_of (waiters c) (sync r) = None \<Longrightarrow> deliver r c = c\<lparr>log := log c @ [r]\<rparr>"
  by (simp add: deliver_def)

lemma deliver_waiter:
  "map_of (waiters c) (sync r) = Some w \<Longrightarrow>
   deliver r c =
     c\<lparr>resolved := resolved c @
          [(w, if return_code r \<noteq> 0 then Exc (DatabaseError (return_code r) (return_message r))
               else Res r)],
       waiters := AList.delete (sync r) (waiters c)\<rparr>"
  by (simp add: deliver_def)

lemma deliver_frame:
  "connected (deliver r c) = connected c \<and> write_buf (deliver r c) = write_buf c \<and>
   write_event (deliver r c) = write_event c \<and> sent (deliver r c) = sent c \<and>
   notices (deliver r c) = notices c \<and> next_future (deliver r c) = next_future c \<and>
   req_num (deliver r c) = req_num c \<and> reader_buf (deliver r c) = reader_buf c"
  by (simp add: deliver_def split: option.splits)

lemma unresolved_iff: "unresolved w c = (w \<notin> set (map fst (resolved c)))"
  by (simp add: unresolved_def outcome_of_def map_of_eq_None_iff)

lemma waiters_ok_deliver: "waiters_ok c \<Longrightarrow> waiters_ok (deliver r c)"
proof (cases "map_of (waiters c) (sync r)")
  case None
  assume "waiters_ok c"
  then show ?thesis
    by (simp add: deliver_no_waiter [OF None] waiters_ok_def unresolved_iff)
next
  case (Some w)
  assume ok: "waiters_ok c"
  let ?d = "AList.delete (sync r) (waiters c)"
  have sub: "set (map snd ?d) \<subseteq> set (map snd (waiters c))" by (rule snd_set_delete)
  have w_in: "w \<in> set (map snd (waiters c))" using Some by (rule map_of_snd_mem)
  have ds: "distinct (map snd (waiters c))" using ok by (simp add: waiters_ok_def)
  have w_out: "w \<notin> set (map snd ?d)" using ds Some by (rule delete_removes_value)
  have d1: "distinct (map fst ?d)" using ok by (simp add: waiters_ok_def distinct_delete)
  have d2: "distinct (map snd ?d)" using ok by (simp add: waiters_ok_def distinct_snd_delete)
  have a: "\<forall>x \<in> set (map snd (waiters c)). x < next_future c \<and> x \<notin> set (map fst (resolved c))"
    using ok unfolding waiters_ok_def unresolved_iff by blast
  have b: "\<forall>x \<in> set (map snd ?d). x < next_future c \<and> x \<notin> set (map fst (resolved c)) \<and> x \<noteq> w"
  proof
    fix x assume x: "x \<in> set (map snd ?d)"
    with sub have "x \<in> set (map snd (waiters c))" by blast
    with a have "x < next_future c \<and> x \<notin> set (map fst (resolved c))" by blast
    moreover from x w_out have "x \<noteq> w" by blast
    ultimately show "x < next_future c \<and> x \<notin> set (map fst (resolved c)) \<and> x \<noteq> w" by blast
  qed
  have r: "\<forall>x \<in> set (map fst (resolved c)). x < next_future c"
    using ok unfolding waiters_ok_def by blast
  have wlt: "w < next_future c" using a w_in by blast
  have r': "\<forall>x \<in> set (map fst (resolved c @ [(w, y)])). x < next_future c" for y
    using r wlt by auto
  have b': "\<forall>x \<in> set (map snd ?d). x < next_future c \<and> x \<notin> set (map fst (resolved c @ [(w, y)]))" for y
    using b by auto
  show ?thesis
    unfolding deliver_waiter [OF Some] waiters_ok_def unresolved_iff
    using d1 d2 b' r' by simp
qed

lemma times_resolved_deliver_other:
  "w \<notin> set (map snd (waiters c)) \<Longrightarrow>
   times_resolved w (deliver r c) = times_resolved w c \<and>
   outcome_of w (deliver r c) = outcome_of w c \<and>
   w \<notin> set (map snd (waiters (deliver r c)))"
proof (cases "map_of (waiters c) (sync r)")
  case None
  assume "w \<notin> set (map snd (waiters c))"
  then show ?thesis
    by (simp add: deliver_no_waiter [OF None] times_resolved_def outcome_of_def)
next
  case (Some w')
  assume n: "w \<notin> set (map snd (waiters c))"
  have "w' \<in> set (map snd (waiters c))" using Some by (rule map_of_snd_mem)
  with n have ne: "w' \<noteq> w" by auto
  have sub: "set (map snd (AList.delete (sync r) (waiters c))) \<subseteq> set (map snd (waiters c))"
    by (rule snd_set_delete)
  have m: "map_of (resolved c @ [(w', x)]) w = map_of (resolved c) w" for x
    using ne by (cases "map_of (resolved c) w") (simp_all add: map_add_def)
  show ?thesis
    using n ne sub m
    by (auto simp: deliver_waiter [OF Some] times_resolved_def outcome_of_def)
qed

subsection \<open>The inner loop of the reader\<close>

declare parse_frames.simps [simp del]

lemma parse_frames_stop:
  "length buf - cur < 5 \<or> length buf - cur < 5 + unpackb (slice buf cur (cur + 5)) \<Longrightarrow>
   parse_frames unpackb decode buf cur c = (cur, c)"
  by (subst parse_frames.simps) auto

lemma parse_frames_step:
  "5 + unpackb (slice buf cur (cur + 5)) \<le> length buf - cur \<Longrightarrow>
   parse_frames unpackb decode buf cur c =
     parse_frames unpackb decode buf (cur + (5 + unpackb (slice buf cur (cur + 5))))
       (deliver (decode (slice buf (cur + 5) (cur + 5 + unpackb (slice buf cur (cur + 5))))) c)"
  by (subst parse_frames.simps) auto

lemma parse_frames_preserves:
  assumes step: "\<And>r c. P c \<Longrightarrow> P (deliver r c)"
  shows "P c \<Longrightarrow> P (snd (parse_frames unpackb decode buf cur c))"
proof (induction unpackb decode buf cur c rule: parse_frames.induct)
  case (1 unpackb decode buf cur c)
  show ?case
  proof (cases "5 + unpackb (slice buf cur (cur + 5)) \<le> length buf - cur")
    case True
    then have g: "5 \<le> length buf - cur" "\<not> length buf - cur < 5 + unpackb (slice buf cur (cur + 5))"
      by auto
    have e: "parse_frames unpackb decode buf cur c =
       parse_frames unpackb decode buf (cur + (5 + unpackb (slice buf cur (cur + 5))))
         (deliver (decode (slice buf (cur + 5) (cur + 5 + unpackb (slice buf cur (cur + 5))))) c)"
      using True by (rule parse_frames_step)
    from "1.IH" [OF g] step [OF "1.prems"]
    show ?thesis by (simp add: e)
  next
    case False
    then have "length buf - cur < 5 \<or> length buf - cur < 5 + unpackb (slice buf cur (cur + 5))"
      by auto
    then show ?thesis using "1.prems" by (simp add: parse_frames_stop)
  qed
qed

lemma waiters_ok_parse_frames:
  "waiters_ok c \<Longrightarrow> waiters_ok (snd (parse_frames unpackb decode buf cur c))"
  by (rule parse_frames_preserves) (rule waiters_ok_deliver)

lemma parse_frames_frame:
  "connected (snd (parse_frames unpackb decode buf cur c)) = connected c \<and>
   write_buf (snd (parse_frames unpackb decode buf cur c)) = write_buf c \<and>
   write_event (snd (parse_frames unpackb decode buf cur c)) = write_event c \<and>
   sent (snd (parse_frames unpackb decode buf cur c)) = sent c \<and>
   notices (snd (parse_frames unpackb decode buf cur c)) = notices c \<and>
   next_future (snd (parse_frames unpackb decode buf cur c)) = next_future c \<and>
   req_num (snd (parse_frames unpackb decode buf cur c)) = req_num c \<and>
   reader_buf (snd (parse_frames unpackb decode buf cur c)) = reader_buf c"
proof -
  let ?P = "\<lambda>x. connected x = connected c \<and> write_buf x = write_buf c \<and>
     write_event x = write_event c \<and> sent x = sent c \<and> notices x = notices c \<and>
     next_future x = next_future c \<and> req_num x = req_num c \<and> reader_buf x = reader_buf c"
  have "?P (snd (parse_frames unpackb decode buf cur c))"
    by (rule parse_frames_preserves) (simp_all add: deliver_frame)
  then show ?thesis by simp
qed

lemma parse_frames_other:
  assumes "w \<notin> set (map snd (waiters c))"
  shows "times_resolved w (snd (parse_frames unpackb decode buf cur c)) = times_resolved w c \<and>
         outcome_of w (snd (parse_frames unpackb decode buf cur c)) = outcome_of w c \<and>
         w \<notin> set (map snd (waiters (snd (parse_frames unpackb decode buf cur c))))"
proof -
  let ?P = "\<lambda>x. times_resolved w x = times_resolved w c \<and> outcome_of w x = outcome_of w c \<and>
     w \<notin> set (map snd (waiters x))"
  have "?P (snd (parse_frames unpackb decode buf cur c))"
  proof (rule parse_frames_preserves)
    fix r x assume "?P x"
    then show "?P (deliver r x)" using times_resolved_deliver_other [of w x r] by simp
  next
    show "?P c" using assms by simp
  qed
  then show ?thesis by simp
qed

declare handed.simps [simp del]

lemma handed_stop:
  "length buf - cur < 5 \<or> length buf - cur < 5 + unpackb (slice buf cur (cur + 5)) \<Longrightarrow>
   handed unpackb buf cur = []"
  by (subst handed.simps) auto

lemma handed_step:
  "5 + unpackb (slice buf cur (cur + 5)) \<le> length buf - cur \<Longrightarrow>
   handed unpackb buf cur =
     slice buf (cur + 5) (cur + 5 + unpackb (slice buf cur (cur + 5))) #
     handed unpackb buf (cur + (5 + unpackb (slice buf cur (cur + 5))))"
  by (subst handed.simps) auto

lemma length_slice: "j \<le> length xs \<Longrightarrow> length (slice xs i j) = j - i"
  by (simp add: slice_def)

lemma parse_frames_handed:
  "snd (parse_frames unpackb decode buf cur c) =
   foldl (\<lambda>c body. deliver (decode body) c) c (handed unpackb buf cur)"
proof (induction unpackb decode buf cur c rule: parse_frames.induct)
  case (1 unpackb decode buf cur c)
  show ?case
  proof (cases "5 + unpackb (slice buf cur (cur + 5)) \<le> length buf - cur")
    case True
    then have g: "5 \<le> length buf - cur" "\<not> length buf - cur < 5 + unpackb (slice buf cur (cur + 5))"
      by auto
    have e: "parse_frames unpackb decode buf cur c =
       parse_frames unpackb decode buf (cur + (5 + unpackb (slice buf cur (cur + 5))))
         (deliver (decode (slice buf (cur + 5) (cur + 5 + unpackb (slice buf cur (cur + 5))))) c)"
      using True by (rule parse_frames_step)
    have h: "handed unpackb buf cur =
       slice buf (cur + 5) (cur + 5 + unpackb (slice buf cur (cur + 5))) #
       handed unpackb buf (cur + (5 + unpackb (slice buf cur (cur + 5))))"
      using True by (rule handed_step)
    from "1.IH" [OF g] show ?thesis by (simp add: e h)
  next
    case False
    then have s: "length buf - cur < 5 \<or> length buf - cur < 5 + unpackb (slice buf cur (cur + 5))"
      by auto
    have p: "parse_frames unpackb decode buf cur c = (cur, c)" using s by (rule parse_frames_stop)
    have h: "handed unpackb buf cur = []" using s by (rule handed_stop)
    show ?thesis by (simp add: p h)
  qed
qed

lemma handed_complete:
  "body \<in> set (handed unpackb buf cur) \<Longrightarrow>
   \<exists>k. cur \<le> k \<and> k + 5 + length body \<le> length buf \<and>
       unpackb (slice buf k (k + 5)) = length body \<and>
       body = slice buf (k + 5) (k + 5 + length body)"
proof (induction unpackb buf cur rule: handed.induct)
  case (1 unpackb buf cur)
  let ?L = "unpackb (slice buf cur (cur + 5))"
  show ?case
  proof (cases "5 + ?L \<le> length buf - cur")
    case True
    then have g: "5 \<le> length buf - cur" "\<not> length buf - cur < 5 + ?L" by auto
    have h: "handed unpackb buf cur =
       slice buf (cur + 5) (cur + 5 + ?L) # handed unpackb buf (cur + (5 + ?L))"
      using True by (rule handed_step)
    from "1.prems" h consider
      (here) "body = slice buf (cur + 5) (cur + 5 + ?L)" |
      (later) "body \<in> set (handed unpackb buf (cur + (5 + ?L)))" by auto
    then show ?thesis
    proof cases
      case here
      have le: "cur + 5 + ?L \<le> length buf" using True by arith
      have len: "length body = ?L" using here le by (simp add: length_slice)
      show ?thesis
      proof (intro exI [of _ cur] conjI)
        show "cur \<le> cur" by simp
        show "cur + 5 + length body \<le> length buf" using le len by simp
        show "unpackb (slice buf cur (cur + 5)) = length body" using len by simp
        show "body = slice buf (cur + 5) (cur + 5 + length body)" using here len by simp
      qed
    next
      case later
      from "1.IH" [OF g later] obtain k where
        k: "cur + (5 + ?L) \<le> k" "k + 5 + length body \<le> length buf"
           "unpackb (slice buf k (k + 5)) = length body"
           "body = slice buf (k + 5) (k + 5 + length body)" by blast
      from k(1) have "cur \<le> k" by arith
      with k show ?thesis by blast
    qed
  next
    case False
    then have s: "length buf - cur < 5 \<or> length buf - cur < 5 + ?L" by auto
    have h: "handed unpackb buf cur = []" using s by (rule handed_stop)
    from "1.prems" show ?thesis by (simp add: h)
  qed
qed

lemma reader_body_eq:
  "reader_body unpackb decode tmp_buf c =
     (snd (parse_frames unpackb decode (reader_buf c @ tmp_buf) 0 c))
     \<lparr>reader_buf := reader_buf (reader_body unpackb decode tmp_buf c)\<rparr>"
  by (simp add: reader_body_def Let_def case_prod_beta)

lemma reader_pass_nonempty:
  "tmp_buf \<noteq> [] \<Longrightarrow> reader_pass unpackb decode tmp_buf c = reader_body unpackb decode tmp_buf c"
  by (simp add: reader_pass_def)

lemma reader_pass_wait:
  assumes "tmp_buf \<noteq> []"
    and "length (reader_buf c @ tmp_buf) < 5 + unpackb (slice (reader_buf c @ tmp_buf) 0 5)"
  shows "reader_pass unpackb decode tmp_buf c = c\<lparr>reader_buf := reader_buf c @ tmp_buf\<rparr>"
proof -
  have "parse_frames unpackb decode (reader_buf c @ tmp_buf) 0 c = (0, c)"
    using assms(2) by (intro parse_frames_stop) simp
  then show ?thesis using assms(1) by (simp add: reader_pass_def reader_body_def)
qed

lemma deliver_resolves_once:
  assumes ok: "waiters_ok c" and m: "map_of (waiters c) (sync r) = Some w"
  shows "times_resolved w (deliver r c) = 1 \<and>
         outcome_of w (deliver r c) =
           Some (if return_code r \<noteq> 0
                 then Exc (DatabaseError (return_code r) (return_message r)) else Res r) \<and>
         w \<notin> set (map snd (waiters (deliver r c)))"
proof -
  have w_in: "w \<in> set (map snd (waiters c))" using m by (rule map_of_snd_mem)
  have "\<forall>x \<in> set (map snd (waiters c)). x < next_future c \<and> x \<notin> set (map fst (resolved c))"
    using ok unfolding waiters_ok_def unresolved_iff by blast
  with w_in have fresh: "w \<notin> set (map fst (resolved c))" by blast
  then have f0: "filter (\<lambda>p. fst p = w) (resolved c) = []"
    by (auto simp: filter_empty_conv)
  have m0: "map_of (resolved c) w = None" using fresh by (simp add: map_of_eq_None_iff)
  have ds: "distinct (map snd (waiters c))" using ok by (simp add: waiters_ok_def)
  have out: "w \<notin> set (map snd (AList.delete (sync r) (waiters c)))"
    using ds m by (rule delete_removes_value)
  show ?thesis
    using f0 m0 out
    by (simp add: deliver_waiter [OF m] times_resolved_def outcome_of_def map_add_def)
qed

subsection \<open>Closing\<close>


lemma count_all_same:
  "length (filter (\<lambda>p. fst p = w) (map (\<lambda>(s, x). (x, out)) al)) =
   length (filter (\<lambda>x. x = w) (map snd al))"
  by (induction al) auto


lemma count_not_mem: "w \<notin> set xs \<Longrightarrow> length (filter (\<lambda>x. x = w) xs) = 0"
  by (auto simp: filter_empty_conv)




lemma do_close_failed:
  "connected c \<Longrightarrow> \<not> lock_held c \<Longrightarrow> \<not> yields_none c \<Longrightarrow>
   do_close who exc c = (Failed BadYieldError, c\<lparr>connected := False\<rparr>)"
  by (simp add: do_close_def)



lemma close_finish_same:
  "connected (close_finish exc c) = connected c \<and> notices (close_finish exc c) = notices c \<and>
   next_future (close_finish exc c) = next_future c \<and> sent (close_finish exc c) = sent c \<and>
   reader_buf (close_finish exc c) = reader_buf c \<and> waiters (close_finish exc c) = [] \<and>
   write_buf (close_finish exc c) = None \<and> write_event (close_finish exc c) = None \<and>
   \<not> lock_held (close_finish exc c) \<and> closing (close_finish exc c) = None"
  by (simp add: close_finish_def)

lemma close_finish_resolved:
  "exc \<noteq> None \<or> cancels c \<Longrightarrow>
   resolved (close_finish exc c) =
     resolved c @ map (\<lambda>(s, waiter). (waiter, close_outcome exc)) (waiters c)"
  by (auto simp: close_finish_def)

lemma close_finish_no_cancel:
  "exc = None \<Longrightarrow> \<not> cancels c \<Longrightarrow> resolved (close_finish exc c) = resolved c"
  by (simp add: close_finish_def)


lemma close_finish_other:
  assumes w: "w \<notin> set (map snd (waiters c))"
  shows "times_resolved w (close_finish exc c) = times_resolved w c \<and>
         outcome_of w (close_finish exc c) = outcome_of w c \<and>
         w \<notin> set (map snd (waiters (close_finish exc c)))"
proof (cases "exc \<noteq> None \<or> cancels c")
  case False
  then have "resolved (close_finish exc c) = resolved c" by (simp add: close_finish_def)
  then show ?thesis by (simp add: times_resolved_def outcome_of_def close_finish_same)
next
  case True
  have z: "length (filter (\<lambda>x. x = w) (map snd (waiters c))) = 0"
    using w by (rule count_not_mem)
  have "w \<notin> fst ` set (map (\<lambda>(s, x). (x, close_outcome exc)) (waiters c))"
    using w by force
  then have n: "map_of (map (\<lambda>(s, x). (x, close_outcome exc)) (waiters c)) w = None"
    by (simp add: map_of_eq_None_iff)
  have R: "resolved (close_finish exc c) =
      resolved c @ map (\<lambda>(s, waiter). (waiter, close_outcome exc)) (waiters c)"
    using True by (rule close_finish_resolved)
  have W: "waiters (close_finish exc c) = []" by (simp add: close_finish_same)
  have t: "times_resolved w (close_finish exc c) = times_resolved w c"
    unfolding times_resolved_def R filter_append length_append count_all_same z
    by simp
  have o: "outcome_of w (close_finish exc c) = outcome_of w c"
    unfolding outcome_of_def R map_of_append map_add_def n
    by (cases "map_of (resolved c) w") simp_all
  from t o W show ?thesis by simp
qed



subsection \<open>Registering a future\<close>

lemma register_ok:
  assumes "distinct (map fst al)" and "distinct (map snd al)"
    and b: "\<forall>x \<in> set (map snd al). x < n \<and> x \<notin> R"
    and r: "\<forall>x \<in> R. x < n"
  shows "distinct (map fst (AList.update k n al)) \<and>
         distinct (map snd (AList.update k n al)) \<and>
         (\<forall>x \<in> set (map snd (AList.update k n al)). x < Suc n \<and> x \<notin> R) \<and>
         (\<forall>x \<in> R. x < Suc n)"
proof -
  have fresh: "n \<notin> set (map snd al)" using b by blast
  have nr: "n \<notin> R" using r by blast
  have sub: "set (map snd (AList.update k n al)) \<subseteq> insert n (set (map snd al))"
    by (rule snd_set_update)
  have d1: "distinct (map fst (AList.update k n al))" using assms(1) by (rule distinct_update)
  have d2: "distinct (map snd (AList.update k n al))"
    using assms(2) fresh by (rule distinct_snd_update)
  have b': "\<forall>x \<in> set (map snd (AList.update k n al)). x < Suc n \<and> x \<notin> R"
  proof
    fix x assume "x \<in> set (map snd (AList.update k n al))"
    with sub have "x = n \<or> x \<in> set (map snd al)" by blast
    then show "x < Suc n \<and> x \<notin> R" using b nr by (auto simp: less_Suc_eq)
  qed
  have r': "\<forall>x \<in> R. x < Suc n" using r by (auto simp: less_Suc_eq)
  from d1 d2 b' r' show ?thesis by blast
qed

lemma generate_sync_eq:
  "generate_sync c =
     (fst (generate_sync c),
      c\<lparr>req_num := fst (generate_sync c),
        waiters := AList.update (fst (generate_sync c)) (next_future c) (waiters c),
        next_future := Suc (next_future c)\<rparr>)"
  by (simp add: generate_sync_def Let_def)

lemma waiters_ok_register:
  assumes ok: "waiters_ok c"
    and w: "waiters c' = AList.update k (next_future c) (waiters c)"
    and n: "next_future c' = Suc (next_future c)"
    and r: "resolved c' = resolved c"
  shows "waiters_ok c'"
proof -
  have "distinct (map fst (waiters c))" "distinct (map snd (waiters c))"
    "\<forall>x \<in> set (map snd (waiters c)). x < next_future c \<and> x \<notin> set (map fst (resolved c))"
    "\<forall>x \<in> set (map fst (resolved c)). x < next_future c"
    using ok unfolding waiters_ok_def unresolved_iff by blast+
  then have "distinct (map fst (AList.update k (next_future c) (waiters c))) \<and>
         distinct (map snd (AList.update k (next_future c) (waiters c))) \<and>
         (\<forall>x \<in> set (map snd (AList.update k (next_future c) (waiters c))).
             x < Suc (next_future c) \<and> x \<notin> set (map fst (resolved c))) \<and>
         (\<forall>x \<in> set (map fst (resolved c)). x < Suc (next_future c))"
    by (rule register_ok)
  then show ?thesis unfolding waiters_ok_def unresolved_iff w n r by blast
qed

lemma waiters_ok_generate_sync: "waiters_ok c \<Longrightarrow> waiters_ok (snd (generate_sync c))"
  by (rule waiters_ok_register [where k = "fst (generate_sync c)"])
     (simp_all add: generate_sync_def Let_def)

lemma waiters_ok_retry_register: "waiters_ok c \<Longrightarrow> waiters_ok (retry_register request r c)"
  by (rule waiters_ok_register [where k = "request_sync request"])
     (simp_all add: retry_register_def)

lemma register_fresh:
  assumes ok: "waiters_ok c"
    and w: "waiters c' = AList.update k (next_future c) (waiters c)"
    and r: "resolved c' = resolved c"
  shows "map_of (waiters c') k = Some (next_future c) \<and> unresolved (next_future c) c' \<and>
         next_future c \<notin> set (map snd (waiters c))"
proof -
  have b: "\<forall>x \<in> set (map snd (waiters c)). x < next_future c"
    and rr: "\<forall>x \<in> set (map fst (resolved c)). x < next_future c"
    using ok unfolding waiters_ok_def by blast+
  have a: "map_of (waiters c') k = Some (next_future c)" by (simp add: w update_conv')
  have u: "unresolved (next_future c) c'" unfolding unresolved_iff r using rr by blast
  have f: "next_future c \<notin> set (map snd (waiters c))" using b by blast
  from a u f show ?thesis by blast
qed

lemma register_drops_old:
  assumes ok: "waiters_ok c"
    and w: "waiters c' = AList.update k (next_future c) (waiters c)"
    and r: "resolved c' = resolved c"
    and old: "map_of (waiters c) k = Some old"
  shows "next_future c \<noteq> old \<and> old \<notin> set (map snd (waiters c')) \<and> unresolved old c'"
proof -
  have b: "\<forall>x \<in> set (map snd (waiters c)). x < next_future c \<and> x \<notin> set (map fst (resolved c))"
    and ds: "distinct (map snd (waiters c))"
    using ok unfolding waiters_ok_def unresolved_iff by blast+
  have m: "old \<in> set (map snd (waiters c))" using old by (rule map_of_snd_mem)
  with b have lt: "old < next_future c" and u: "old \<notin> set (map fst (resolved c))" by blast+
  from lt have ne: "next_future c \<noteq> old" by simp
  have out: "old \<notin> set (map snd (AList.update k (next_future c) (waiters c)))"
    using ds old ne by (rule update_removes_value)
  from ne out u show ?thesis unfolding unresolved_iff w r by blast
qed

subsection \<open>The background loops\<close>

lemma reader_body_other:
  assumes "w \<notin> set (map snd (waiters c))"
  shows "times_resolved w (reader_body unpackb decode tmp_buf c) = times_resolved w c \<and>
         outcome_of w (reader_body unpackb decode tmp_buf c) = outcome_of w c \<and>
         w \<notin> set (map snd (waiters (reader_body unpackb decode tmp_buf c)))"
proof -
  let ?c2 = "snd (parse_frames unpackb decode (reader_buf c @ tmp_buf) 0 c)"
  have s2: "times_resolved w ?c2 = times_resolved w c \<and> outcome_of w ?c2 = outcome_of w c \<and>
      w \<notin> set (map snd (waiters ?c2))"
    using assms by (rule parse_frames_other)
  have e: "reader_body unpackb decode tmp_buf c =
      ?c2\<lparr>reader_buf := reader_buf (reader_body unpackb decode tmp_buf c)\<rparr>"
    by (rule reader_body_eq)
  have s3: "times_resolved w (reader_body unpackb decode tmp_buf c) = times_resolved w ?c2 \<and>
      outcome_of w (reader_body unpackb decode tmp_buf c) = outcome_of w ?c2 \<and>
      waiters (reader_body unpackb decode tmp_buf c) = waiters ?c2"
    by (subst e, subst e, subst e) (simp add: times_resolved_def outcome_of_def)
  from s2 s3 show ?thesis by simp
qed

lemma reader_body_frame:
  "connected (reader_body unpackb decode tmp_buf c) = connected c \<and>
   write_buf (reader_body unpackb decode tmp_buf c) = write_buf c \<and>
   sent (reader_body unpackb decode tmp_buf c) = sent c \<and>
   notices (reader_body unpackb decode tmp_buf c) = notices c"
proof -
  let ?c2 = "snd (parse_frames unpackb decode (reader_buf c @ tmp_buf) 0 c)"
  have e: "reader_body unpackb decode tmp_buf c =
      ?c2\<lparr>reader_buf := reader_buf (reader_body unpackb decode tmp_buf c)\<rparr>"
    by (rule reader_body_eq)
  have f: "connected ?c2 = connected c \<and> write_buf ?c2 = write_buf c \<and>
      sent ?c2 = sent c \<and> notices ?c2 = notices c"
    using parse_frames_frame [of unpackb decode "reader_buf c @ tmp_buf" 0 c] by blast
  have g: "connected (reader_body unpackb decode tmp_buf c) = connected ?c2 \<and>
      write_buf (reader_body unpackb decode tmp_buf c) = write_buf ?c2 \<and>
      sent (reader_body unpackb decode tmp_buf c) = sent ?c2 \<and>
      notices (reader_body unpackb decode tmp_buf c) = notices ?c2"
    by (subst e, subst e, subst e, subst e) simp
  from f g show ?thesis by simp
qed

lemma reader_pass_cases:
  "reader_pass unpackb decode tmp_buf c = reader_body unpackb decode tmp_buf c \<or>
   reader_pass unpackb decode tmp_buf c = c\<lparr>reader_waits := True\<rparr> \<or>
   reader_pass unpackb decode tmp_buf c = c\<lparr>connected := False\<rparr> \<or>
   reader_pass unpackb decode tmp_buf c =
     c\<lparr>connected := False, lock_held := True,
       closing := Some (Reader, Some (NetworkError ''Lost connection to server during query''))\<rparr>"
  by (simp add: reader_pass_def do_close_def)

lemma reader_pass_other:
  assumes "w \<notin> set (map snd (waiters c))"
  shows "times_resolved w (reader_pass unpackb decode tmp_buf c) = times_resolved w c \<and>
         outcome_of w (reader_pass unpackb decode tmp_buf c) = outcome_of w c \<and>
         w \<notin> set (map snd (waiters (reader_pass unpackb decode tmp_buf c)))"
  using reader_pass_cases [of unpackb decode tmp_buf c]
    reader_body_other [OF assms, of unpackb decode tmp_buf] assms
  by (auto simp: times_resolved_def outcome_of_def)

lemma writer_pass_same:
  "resolved (writer_pass c) = resolved c \<and> waiters (writer_pass c) = waiters c \<and>
   notices (writer_pass c) = notices c \<and> next_future (writer_pass c) = next_future c \<and>
   connected (writer_pass c) = connected c"
  by (simp add: writer_pass_def split: option.splits)

lemma resume_other:
  assumes "w \<notin> set (map snd (waiters c))"
  shows "times_resolved w (run_activity unpackb decode Resume c) = times_resolved w c \<and>
         outcome_of w (run_activity unpackb decode Resume c) = outcome_of w c \<and>
         w \<notin> set (map snd (waiters (run_activity unpackb decode Resume c)))"
proof (cases "closing c")
  case None
  then show ?thesis using assms by simp
next
  case (Some p)
  obtain who exc where p: "p = (who, exc)" by (cases p)
  show ?thesis
  proof (cases "connected c")
    case True
    then show ?thesis using Some p assms by simp
  next
    case False
    have f: "times_resolved w (close_finish exc c) = times_resolved w c \<and>
         outcome_of w (close_finish exc c) = outcome_of w c \<and>
         w \<notin> set (map snd (waiters (close_finish exc c)))"
      using assms by (rule close_finish_other)
    then have n: "w \<notin> set (map snd (waiters (close_finish exc c)))" by blast
    show ?thesis
    proof (cases who)
      case Caller
      then show ?thesis using Some p False f by simp
    next
      case Reader
      then show ?thesis
        using Some p False f reader_body_other [OF n, of unpackb decode "[]"] by simp
    qed
  qed
qed

lemma run_activity_other:
  assumes "w \<notin> set (map snd (waiters c))"
  shows "times_resolved w (run_activity unpackb decode a c) = times_resolved w c \<and>
         outcome_of w (run_activity unpackb decode a c) = outcome_of w c \<and>
         w \<notin> set (map snd (waiters (run_activity unpackb decode a c)))"
proof (cases a)
  case (Recv tmp_buf)
  then show ?thesis using reader_pass_other [OF assms] assms by simp
next
  case Drain
  then show ?thesis using assms writer_pass_same [of c]
    by (simp add: times_resolved_def outcome_of_def)
next
  case Resume
  then show ?thesis using resume_other [OF assms] by simp
qed

lemma run_activities_other:
  "w \<notin> set (map snd (waiters c)) \<Longrightarrow>
   times_resolved w (run_activities unpackb decode acts c) = times_resolved w c \<and>
   outcome_of w (run_activities unpackb decode acts c) = outcome_of w c \<and>
   w \<notin> set (map snd (waiters (run_activities unpackb decode acts c)))"
proof (induction acts arbitrary: c)
  case Nil
  then show ?case by simp
next
  case (Cons a acts)
  have s: "times_resolved w (run_activity unpackb decode a c) = times_resolved w c \<and>
         outcome_of w (run_activity unpackb decode a c) = outcome_of w c \<and>
         w \<notin> set (map snd (waiters (run_activity unpackb decode a c)))"
    using Cons.prems by (rule run_activity_other)
  then have "w \<notin> set (map snd (waiters (run_activity unpackb decode a c)))" by blast
  from Cons.IH [OF this] s show ?case by simp
qed

subsection \<open>Dispatch\<close>

lemma waiters_ok_cong:
  "waiters c' = waiters c \<Longrightarrow> resolved c' = resolved c \<Longrightarrow> next_future c' = next_future c \<Longrightarrow>
   waiters_ok c' = waiters_ok c"
  by (simp add: waiters_ok_def unresolved_iff)

lemma connect_same:
  "waiters (connect c) = waiters c \<and> resolved (connect c) = resolved c \<and>
   next_future (connect c) = next_future c \<and> notices (connect c) = notices c \<and>
   sent (connect c) = sent c \<and> connected (connect c)"
  by (simp add: connect_def)

lemma send_attempt_no_waiter:
  "map_of (waiters c) (request_sync request) = None \<Longrightarrow>
   send_attempt request c = (Inl (KeyError (request_sync request)), c)"
  by (simp add: send_attempt_def)

lemma send_attempt_no_buffer:
  "map_of (waiters c) (request_sync request) = Some w \<Longrightarrow> write_buf c = None \<Longrightarrow>
   send_attempt request c = (Inl TypeError, c)"
  by (simp add: send_attempt_def)

lemma send_attempt_sends:
  "map_of (waiters c) (request_sync request) = Some w \<Longrightarrow> write_buf c = Some wb \<Longrightarrow>
   send_attempt request c =
     (Inr w, c\<lparr>write_buf := Some (wb @ request_bytes request), write_event := Some True\<rparr>)"
  by (simp add: send_attempt_def)

lemma send_attempt_Inr:
  "send_attempt request c = (Inr w, c') \<Longrightarrow>
   map_of (waiters c) (request_sync request) = Some w \<and>
   (\<exists>wb. write_buf c = Some wb \<and>
      c' = c\<lparr>write_buf := Some (wb @ request_bytes request), write_event := Some True\<rparr>)"
  by (auto simp: send_attempt_def split: option.splits)

lemma send_attempt_Inl: "send_attempt request c = (Inl e, c') \<Longrightarrow> c' = c"
  by (auto simp: send_attempt_def split: option.splits)

subsection \<open>The retry loop\<close>

lemma send_loop_responses:
  "responses_seen unpackb decode n request sched c = rs \<Longrightarrow>
   (length rs = n \<and> (\<forall>r \<in> set rs. completion_status r = 1) \<longrightarrow>
      fst (send_loop unpackb decode n request sched prev c) =
        (case (if rs = [] then prev else Some (last rs)) of
           None \<Rightarrow> Raised UnboundLocalError
         | Some r \<Rightarrow> Raised (DatabaseError (return_code r) (return_message r)))) \<and>
   (rs \<noteq> [] \<and> completion_status (last rs) \<noteq> 1 \<longrightarrow>
      fst (send_loop unpackb decode n request sched prev c) = Returned (last rs))"
proof (induction n arbitrary: sched prev c rs)
  case 0
  then show ?case by (simp split: option.splits)
next
  case (Suc n)
  obtain x c1 where sa: "send_attempt request c = (x, c1)" by (cases "send_attempt request c")
  show ?case
  proof (cases x)
    case (Inl e)
    with sa Suc.prems have "rs = []" by simp
    then show ?thesis by simp
  next
    case (Inr w)
    let ?c2 = "run_activities unpackb decode (next_acts sched) c1"
    show ?thesis
    proof (cases "outcome_of w ?c2")
      case None
      with sa Inr Suc.prems have "rs = []" by simp
      then show ?thesis by simp
    next
      case (Some out)
      show ?thesis
      proof (cases out)
        case (Exc e)
        with sa Inr Some Suc.prems have "rs = []" by simp
        then show ?thesis by simp
      next
        case Cancelled
        with sa Inr Some Suc.prems have "rs = []" by simp
        then show ?thesis by simp
      next
        case (Res r)
        show ?thesis
        proof (cases "completion_status r \<noteq> 1")
          case True
          with sa Inr Some Res Suc.prems have rs: "rs = [r]" by simp
          have "fst (send_loop unpackb decode (Suc n) request sched prev c) = Returned r"
            using sa Inr Some Res True by simp
          then show ?thesis using rs True by simp
        next
          case False
          let ?c3 = "retry_register request r ?c2"
          let ?rs' = "responses_seen unpackb decode n request (tl sched) ?c3"
          have rs: "rs = r # ?rs'" using sa Inr Some Res False Suc.prems by simp
          have step: "send_loop unpackb decode (Suc n) request sched prev c =
              send_loop unpackb decode n request (tl sched) (Some r) ?c3"
            using sa Inr Some Res False by simp
          note ih = Suc.IH [of "tl sched" ?c3 ?rs' "Some r", OF refl]
          have st: "completion_status r = 1" using False by simp
          show ?thesis
          proof (intro conjI impI)
            assume a: "length rs = Suc n \<and> (\<forall>r \<in> set rs. completion_status r = 1)"
            then have "length ?rs' = n \<and> (\<forall>r \<in> set ?rs'. completion_status r = 1)"
              using rs by (metis length_Cons list.set_intros(2) nat.inject)
            with ih have "fst (send_loop unpackb decode n request (tl sched) (Some r) ?c3) =
                (case (if ?rs' = [] then Some r else Some (last ?rs')) of
                   None \<Rightarrow> Raised UnboundLocalError
                 | Some r \<Rightarrow> Raised (DatabaseError (return_code r) (return_message r)))"
              by blast
            moreover have "last rs = (if ?rs' = [] then r else last ?rs')"
              by (subst rs) simp
            moreover have "rs \<noteq> []" by (subst rs) simp
            ultimately show "fst (send_loop unpackb decode (Suc n) request sched prev c) =
                (case (if rs = [] then prev else Some (last rs)) of
                   None \<Rightarrow> Raised UnboundLocalError
                 | Some r \<Rightarrow> Raised (DatabaseError (return_code r) (return_message r)))"
              unfolding step by (simp del: send_loop.simps responses_seen.simps)
          next
            assume b: "rs \<noteq> [] \<and> completion_status (last rs) \<noteq> 1"
            have l: "last rs = (if ?rs' = [] then r else last ?rs')" by (subst rs) simp
            with b st have ne: "?rs' \<noteq> []" by auto
            with l have l': "last rs = last ?rs'" by simp
            from ih ne b l' have "fst (send_loop unpackb decode n request (tl sched) (Some r) ?c3) =
                Returned (last ?rs')" by simp
            then show "fst (send_loop unpackb decode (Suc n) request sched prev c) =
                Returned (last rs)"
              unfolding step by (simp add: l' del: send_loop.simps responses_seen.simps)
          qed
        qed
      qed
    qed
  qed
qed

lemma send_loop_returns_at_once:
  "send_attempt request c = (Inr w, c1) \<Longrightarrow>
   outcome_of w (run_activities unpackb decode (next_acts sched) c1) = Some (Res r) \<Longrightarrow>
   completion_status r \<noteq> 1 \<Longrightarrow>
   send_loop unpackb decode (Suc n) request sched prev c =
     (Returned r, run_activities unpackb decode (next_acts sched) c1)"
  by simp

subsection \<open>What the background loops leave alone\<close>

lemma reader_pass_frame:
  "notices (reader_pass unpackb decode tmp_buf c) = notices c \<and>
   (connected c \<and> connected (reader_pass unpackb decode tmp_buf c) \<longrightarrow>
      write_buf (reader_pass unpackb decode tmp_buf c) = write_buf c \<and>
      sent (reader_pass unpackb decode tmp_buf c) = sent c)"
  using reader_pass_cases [of unpackb decode tmp_buf c]
    reader_body_frame [of unpackb decode tmp_buf c]
  by auto

lemma run_activity_frame:
  "notices (run_activity unpackb decode a c) = notices c \<and>
   (connected (run_activity unpackb decode a c) \<longrightarrow>
      connected c \<and> outbound (run_activity unpackb decode a c) = outbound c)"
proof (cases a)
  case (Recv tmp_buf)
  then show ?thesis
    using reader_pass_frame [of unpackb decode tmp_buf c] by (auto simp: outbound_def)
next
  case Drain
  then show ?thesis
    by (auto simp: writer_pass_def outbound_def split: option.splits)
next
  case Resume
  then show ?thesis
    using close_finish_same [of _ c] reader_body_frame [of unpackb decode "[]"]
    by (auto split: option.splits closer.splits)
qed

lemma run_activities_frame:
  "notices (run_activities unpackb decode acts c) = notices c \<and>
   (connected (run_activities unpackb decode acts c) \<longrightarrow>
      connected c \<and> outbound (run_activities unpackb decode acts c) = outbound c)"
proof (induction acts arbitrary: c)
  case Nil
  then show ?case by simp
next
  case (Cons a acts)
  from Cons.IH [of "run_activity unpackb decode a c"]
    run_activity_frame [of unpackb decode a c]
  show ?case by auto
qed

lemma retry_register_frame:
  "outbound (retry_register request r c) = outbound c \<and>
   connected (retry_register request r c) = connected c \<and>
   notices (retry_register request r c) = notices c @ [return_message r] \<and>
   map_of (waiters (retry_register request r c)) (request_sync request) = Some (next_future c)"
  by (simp add: retry_register_def outbound_def update_conv')

lemma send_attempt_outbound:
  "send_attempt request c = (Inr w, c1) \<Longrightarrow>
   outbound c1 = outbound c @ request_bytes request \<and> notices c1 = notices c \<and>
   connected c1 = connected c"
  by (auto simp: send_attempt_def outbound_def split: option.splits)

lemma send_loop_outbound:
  "send_loop unpackb decode n request sched prev c = (Returned r, c') \<Longrightarrow> connected c' \<Longrightarrow>
   connected c \<and> length (notices c) \<le> length (notices c') \<and>
   outbound c' =
     outbound c @
     concat (replicate (Suc (length (notices c') - length (notices c))) (request_bytes request))"
proof (induction n arbitrary: sched prev c)
  case 0
  then show ?case by (simp split: option.splits)
next
  case (Suc n)
  obtain x c1 where sa: "send_attempt request c = (x, c1)" by (cases "send_attempt request c")
  show ?case
  proof (cases x)
    case (Inl e)
    with sa Suc.prems show ?thesis by simp
  next
    case (Inr w)
    let ?c2 = "run_activities unpackb decode (next_acts sched) c1"
    have s1: "outbound c1 = outbound c @ request_bytes request \<and> notices c1 = notices c \<and>
        connected c1 = connected c"
      using sa Inr send_attempt_outbound by blast
    have s2: "notices ?c2 = notices c1 \<and>
        (connected ?c2 \<longrightarrow> connected c1 \<and> outbound ?c2 = outbound c1)"
      by (rule run_activities_frame)
    show ?thesis
    proof (cases "outcome_of w ?c2")
      case None
      with sa Inr Suc.prems show ?thesis by simp
    next
      case (Some out)
      show ?thesis
      proof (cases out)
        case (Exc e)
        with sa Inr Some Suc.prems show ?thesis by simp
      next
        case Cancelled
        with sa Inr Some Suc.prems show ?thesis by simp
      next
        case (Res r0)
        show ?thesis
        proof (cases "completion_status r0 \<noteq> 1")
          case True
          with sa Inr Some Res Suc.prems(1) have "c' = ?c2" by simp
          with Suc.prems(2) s1 s2 show ?thesis by simp
        next
          case False
          let ?c3 = "retry_register request r0 ?c2"
          have step: "send_loop unpackb decode n request (tl sched) (Some r0) ?c3 = (Returned r, c')"
            using sa Inr Some Res False Suc.prems(1) by simp
          note ih = Suc.IH [OF step Suc.prems(2)]
          have s3: "outbound ?c3 = outbound ?c2 \<and> connected ?c3 = connected ?c2 \<and>
              notices ?c3 = notices ?c2 @ [return_message r0]"
            using retry_register_frame by blast
          from ih s3 have k2: "connected ?c2" by simp
          with s2 have k1: "connected c1" and o2: "outbound ?c2 = outbound c1" by blast+
          have len3: "length (notices ?c3) = Suc (length (notices c))" using s3 s2 s1 by simp
          from ih have le: "length (notices ?c3) \<le> length (notices c')" by blast
          have cnt: "Suc (length (notices c') - length (notices c)) =
              Suc (Suc (length (notices c') - length (notices ?c3)))"
            using len3 le by arith
          have o3: "outbound ?c3 = outbound c @ request_bytes request" using s3 o2 s1 by simp
          from ih have "outbound c' = outbound ?c3 @
              concat (replicate (Suc (length (notices c') - length (notices ?c3)))
                (request_bytes request))" by blast
          then have "outbound c' = outbound c @
              concat (replicate (Suc (length (notices c') - length (notices c)))
                (request_bytes request))"
            unfolding cnt o3 by simp
          moreover have "connected c" using k1 s1 by simp
          moreover have "length (notices c) \<le> length (notices c')" using len3 le by arith
          ultimately show ?thesis by blast
        qed
      qed
    qed
  qed
qed

subsection \<open>The schema cache\<close>

lemma get_space_not_found:
  "map_of schema space = None \<Longrightarrow> rows array = [] \<or> rows array = [[]] \<Longrightarrow>
   get_space row_sid row_name schema space (Inr array) =
     (Inl (SchemaError (temp_name space) space), schema)"
  by (auto simp: get_space_def get_space_locked_def)

lemma get_space_found:
  assumes "map_of schema space = None" and "rows array = [array0]" and "array0 \<noteq> []"
    and "sp = \<lparr>sid = row_sid array0, name = row_name array0, indexes = []\<rparr>"
  shows "get_space row_sid row_name schema space (Inr array) =
           (Inr sp, AList.update (ByName (name sp)) sp (AList.update (ById (sid sp)) sp schema))"
  using assms by (simp add: get_space_def get_space_locked_def SchemaSpace_def Let_def)

lemma cached_both_keys:
  "map_of (AList.update (ByName n) sp (AList.update (ById i) sp schema)) (ById i) = Some sp \<and>
   map_of (AList.update (ByName n) sp (AList.update (ById i) sp schema)) (ByName n) = Some sp"
  by (simp add: update_conv')


subsection \<open>A close from its call to its end\<close>





subsection \<open>A response during the first suspension of a dispatch\<close>

lemma deliver_keeps_absent:
  "map_of (waiters c) k = None \<Longrightarrow> map_of (waiters (deliver r c)) k = None"
  by (simp add: deliver_def delete_conv' split: option.splits)

lemma parse_frames_keeps_absent:
  assumes "map_of (waiters c) k = None"
  shows "map_of (waiters (snd (parse_frames unpackb decode buf cur c))) k = None"
proof -
  let ?P = "\<lambda>x :: conn. map_of (waiters x) k = None"
  have "?P (snd (parse_frames unpackb decode buf cur c))"
    using assms by (rule parse_frames_preserves [where P = ?P, rotated]) (rule deliver_keeps_absent)
  then show ?thesis .
qed

lemma deliver_twice:
  assumes "map_of (waiters c) (sync r) = Some w" and "sync r' = sync r"
  shows "map_of (waiters (deliver r c)) (sync r) = None \<and>
         deliver r' (deliver r c) = (deliver r c)\<lparr>log := log (deliver r c) @ [r']\<rparr>"
proof -
  have a: "map_of (waiters (deliver r c)) (sync r) = None"
    by (simp add: deliver_waiter [OF assms(1)] delete_conv')
  then have "map_of (waiters (deliver r c)) (sync r') = None" using assms(2) by simp
  then have "deliver r' (deliver r c) = (deliver r c)\<lparr>log := log (deliver r c) @ [r']\<rparr>"
    by (rule deliver_no_waiter)
  with a show ?thesis by blast
qed

lemma reader_body_first_frame:
  assumes ok: "waiters_ok c"
    and fr: "5 + unpackb (slice (reader_buf c @ tmp_buf) 0 5) \<le> length (reader_buf c @ tmp_buf)"
    and r: "r = decode (slice (reader_buf c @ tmp_buf) 5
                  (5 + unpackb (slice (reader_buf c @ tmp_buf) 0 5)))"
    and m: "map_of (waiters c) (sync r) = Some w"
  shows "outcome_of w (reader_body unpackb decode tmp_buf c) =
           Some (if return_code r \<noteq> 0
                 then Exc (DatabaseError (return_code r) (return_message r)) else Res r) \<and>
         map_of (waiters (reader_body unpackb decode tmp_buf c)) (sync r) = None"
proof -
  let ?buf = "reader_buf c @ tmp_buf"
  let ?next = "0 + (5 + unpackb (slice ?buf 0 (0 + 5)))"
  let ?c1 = "deliver r c"
  let ?c2 = "snd (parse_frames unpackb decode ?buf 0 c)"
  have fr': "5 + unpackb (slice ?buf 0 (0 + 5)) \<le> length ?buf - 0" using fr by simp
  have "parse_frames unpackb decode ?buf 0 c =
      parse_frames unpackb decode ?buf ?next
        (deliver (decode (slice ?buf (0 + 5) (0 + 5 + unpackb (slice ?buf 0 (0 + 5))))) c)"
    using fr' by (rule parse_frames_step)
  then have st: "parse_frames unpackb decode ?buf 0 c = parse_frames unpackb decode ?buf ?next ?c1"
    using r by simp
  have once: "times_resolved w ?c1 = 1 \<and>
      outcome_of w ?c1 =
        Some (if return_code r \<noteq> 0
              then Exc (DatabaseError (return_code r) (return_message r)) else Res r) \<and>
      w \<notin> set (map snd (waiters ?c1))"
    using ok m by (rule deliver_resolves_once)
  then have out: "w \<notin> set (map snd (waiters ?c1))" by blast
  have rest: "outcome_of w (snd (parse_frames unpackb decode ?buf ?next ?c1)) = outcome_of w ?c1"
    using parse_frames_other [OF out] by blast
  have ab1: "map_of (waiters ?c1) (sync r) = None"
    by (simp add: deliver_waiter [OF m] delete_conv')
  have ab2: "map_of (waiters (snd (parse_frames unpackb decode ?buf ?next ?c1))) (sync r) = None"
    using ab1 by (rule parse_frames_keeps_absent)
  have o2: "outcome_of w ?c2 =
        Some (if return_code r \<noteq> 0
              then Exc (DatabaseError (return_code r) (return_message r)) else Res r)"
    using rest once by (simp add: st)
  have w2: "map_of (waiters ?c2) (sync r) = None" using ab2 by (simp add: st)
  have e: "reader_body unpackb decode tmp_buf c =
      ?c2\<lparr>reader_buf := reader_buf (reader_body unpackb decode tmp_buf c)\<rparr>"
    by (rule reader_body_eq)
  have s3: "outcome_of w (reader_body unpackb decode tmp_buf c) = outcome_of w ?c2 \<and>
      waiters (reader_body unpackb decode tmp_buf c) = waiters ?c2"
    by (subst e, subst e) (simp add: outcome_of_def)
  from o2 w2 s3 show ?thesis by simp
qed

lemma dispatch_eq:
  "dispatch unpackb decode N encode sched c =
     send_loop unpackb decode N
       \<lparr>request_sync = fst (generate_sync c), request_bytes = encode (fst (generate_sync c))\<rparr>
       sched None
       (if \<not> connected (snd (generate_sync c)) then connect (snd (generate_sync c))
        else snd (generate_sync c))"
  by (simp add: dispatch_def new_request_def send_request_def case_prod_beta Let_def)

lemma new_request_eq:
  "new_request encode c =
     (\<lparr>request_sync = fst (generate_sync c), request_bytes = encode (fst (generate_sync c))\<rparr>,
      snd (generate_sync c))"
  by (simp add: new_request_def case_prod_beta)

section \<open>The claims\<close>

text \<open>
  C6. The correlation id counter goes up by one with each request and is reset to zero
  once it would exceed 10000000: after the counter value \<open>n\<close> the next id is \<open>n + 1\<close> when
  that is at most 10000000, and 0 otherwise. The id is the new counter value, and every
  id a connection generates lies between 0 and 10000000.
\<close>

theorem generate_sync_counter:
  "fst (generate_sync c) = (if req_num c + 1 \<le> 10000000 then req_num c + 1 else 0) \<and>
   req_num (snd (generate_sync c)) = fst (generate_sync c) \<and>
   (\<forall>s \<in> set (fst (syncs k init_conn)). 0 \<le> s \<and> s \<le> 10000000)"
proof -
  have "0 \<le> req_num init_conn" "req_num init_conn \<le> 10000000" by (simp_all add: init_conn_def)
  then have "\<forall>s \<in> set (fst (syncs k init_conn)). 0 \<le> s \<and> s \<le> 10000000"
    using syncs_range by blast
  then show ?thesis by (simp add: generate_sync_fst generate_sync_req_num)
qed

theorem generate_sync_counter_witness:
  "fst (generate_sync (init_conn\<lparr>req_num := 9999999\<rparr>)) = 10000000 \<and>
   fst (generate_sync (init_conn\<lparr>req_num := 10000000\<rparr>)) = 0 \<and>
   fst (syncs 3 init_conn) = [3, 2, 1]"
proof -
  have a: "fst (generate_sync (init_conn\<lparr>req_num := 9999999\<rparr>)) = 10000000"
    using generate_sync_counter [of "init_conn\<lparr>req_num := 9999999\<rparr>" 3] by simp
  have b: "fst (generate_sync (init_conn\<lparr>req_num := 10000000\<rparr>)) = 0"
    using generate_sync_counter [of "init_conn\<lparr>req_num := 10000000\<rparr>" 3] by simp
  have c: "fst (syncs 3 init_conn) = [3, 2, 1]" by code_simp
  from a b c show ?thesis by simp
qed
text \<open>
  C2. A payload is handed to the response decoder only when the buffer holds the five
  bytes of the length prefix and, after them, the full declared length: every payload
  the inner loop decodes lies in the buffer behind its prefix and has exactly the length
  the prefix declares. When fewer bytes than 5 plus the declared length are there, the
  loop stops without consuming or decoding anything, and the reader keeps the bytes and
  waits for the next read.
\<close>

theorem reader_decodes_complete_frames_only:
  "snd (parse_frames unpackb decode buf cur c) =
     foldl (\<lambda>c body. deliver (decode body) c) c (handed unpackb buf cur) \<and>
   (\<forall>body \<in> set (handed unpackb buf cur).
      \<exists>k. cur \<le> k \<and> k + 5 + length body \<le> length buf \<and>
          unpackb (slice buf k (k + 5)) = length body \<and>
          body = slice buf (k + 5) (k + 5 + length body)) \<and>
   (length buf - cur < 5 + unpackb (slice buf cur (cur + 5)) \<longrightarrow>
      handed unpackb buf cur = [] \<and> parse_frames unpackb decode buf cur c = (cur, c)) \<and>
   (tmp_buf \<noteq> [] \<and>
    length (reader_buf c @ tmp_buf) < 5 + unpackb (slice (reader_buf c @ tmp_buf) 0 5) \<longrightarrow>
      reader_pass unpackb decode tmp_buf c = c\<lparr>reader_buf := reader_buf c @ tmp_buf\<rparr>)"
proof (intro conjI ballI impI)
  show "snd (parse_frames unpackb decode buf cur c) =
     foldl (\<lambda>c body. deliver (decode body) c) c (handed unpackb buf cur)"
    by (rule parse_frames_handed)
next
  fix body assume "body \<in> set (handed unpackb buf cur)"
  then show "\<exists>k. cur \<le> k \<and> k + 5 + length body \<le> length buf \<and>
          unpackb (slice buf k (k + 5)) = length body \<and>
          body = slice buf (k + 5) (k + 5 + length body)"
    by (rule handed_complete)
next
  assume a: "length buf - cur < 5 + unpackb (slice buf cur (cur + 5))"
  then have s: "length buf - cur < 5 \<or> length buf - cur < 5 + unpackb (slice buf cur (cur + 5))"
    by simp
  from s show "handed unpackb buf cur = []" by (rule handed_stop)
  from s show "parse_frames unpackb decode buf cur c = (cur, c)" by (rule parse_frames_stop)
next
  assume "tmp_buf \<noteq> [] \<and>
    length (reader_buf c @ tmp_buf) < 5 + unpackb (slice (reader_buf c @ tmp_buf) 0 5)"
  then show "reader_pass unpackb decode tmp_buf c = c\<lparr>reader_buf := reader_buf c @ tmp_buf\<rparr>"
    using reader_pass_wait by blast
qed

theorem reader_decodes_complete_frames_only_witness:
  "handed uint32 (tiny_frame 1 0 0 @ [0xce, 0, 0, 0, 3, 9]) 0 = [[1, 0, 0]] \<and>
   (\<exists>k. 0 \<le> k \<and> k + 5 + length [1, 0, 0 :: byte] \<le> length (tiny_frame 1 0 0 @ [0xce, 0, 0, 0, 3, 9]) \<and>
        uint32 (slice (tiny_frame 1 0 0 @ [0xce, 0, 0, 0, 3, 9]) k (k + 5)) = length [1, 0, 0 :: byte] \<and>
        [1, 0, 0] = slice (tiny_frame 1 0 0 @ [0xce, 0, 0, 0, 3, 9]) (k + 5) (k + 5 + length [1, 0, 0 :: byte])) \<and>
   parse_frames uint32 tiny_response (tiny_frame 1 0 0 @ [0xce, 0, 0, 0, 3, 9]) 8 (connect init_conn) =
     (8, connect init_conn) \<and>
   reader_pass uint32 tiny_response [0xce, 0, 0, 0, 3, 9] (connect init_conn) =
     (connect init_conn)\<lparr>reader_buf := reader_buf (connect init_conn) @ [0xce, 0, 0, 0, 3, 9]\<rparr>"
proof -
  let ?buf = "tiny_frame 1 0 0 @ [0xce, 0, 0, 0, 3, 9]"
  let ?c = "connect init_conn"
  have h1: "length ?buf - 8 < 5 + uint32 (slice ?buf 8 (8 + 5))" by code_simp
  have h2: "[0xce, 0, 0, 0, 3, 9] \<noteq> ([] :: bytes) \<and>
    length (reader_buf ?c @ [0xce, 0, 0, 0, 3, 9]) <
      5 + uint32 (slice (reader_buf ?c @ [0xce, 0, 0, 0, 3, 9]) 0 5)" by code_simp
  have a: "handed uint32 ?buf 0 = [[1, 0, 0]]" by code_simp
  have m: "[1, 0, 0] \<in> set (handed uint32 ?buf 0)" by (simp add: a)
  have e: "\<exists>k. 0 \<le> k \<and> k + 5 + length [1, 0, 0 :: byte] \<le> length ?buf \<and>
        uint32 (slice ?buf k (k + 5)) = length [1, 0, 0 :: byte] \<and>
        [1, 0, 0] = slice ?buf (k + 5) (k + 5 + length [1, 0, 0 :: byte])"
    using reader_decodes_complete_frames_only [of uint32 tiny_response ?buf 0 ?c "[]"] m
    by blast
  have b: "parse_frames uint32 tiny_response ?buf 8 ?c = (8, ?c)"
    using reader_decodes_complete_frames_only [of uint32 tiny_response ?buf 8 ?c "[]"] h1
    by blast
  have d: "reader_pass uint32 tiny_response [0xce, 0, 0, 0, 3, 9] ?c =
     ?c\<lparr>reader_buf := reader_buf ?c @ [0xce, 0, 0, 0, 3, 9]\<rparr>"
    using reader_decodes_complete_frames_only
      [of uint32 tiny_response "[]" 0 ?c "[0xce, 0, 0, 0, 3, 9]"] h2
    by blast
  from a e b d show ?thesis by blast
qed

text \<open>
  C4. When the reader loop decodes a complete frame whose correlation id has no entry in
  the waiter table, it logs the response and discards it: only the log changes, no
  future is resolved, and the loop goes on with the frames that follow in the same
  buffer. The loop returns normally and leaves the connection connected as it was.
\<close>

theorem reader_discards_unmatched_frame:
  assumes "5 + unpackb (slice buf cur (cur + 5)) \<le> length buf - cur"
    and "response = decode (slice buf (cur + 5) (cur + 5 + unpackb (slice buf cur (cur + 5))))"
    and "map_of (waiters c) (sync response) = None"
  shows "deliver response c = c\<lparr>log := log c @ [response]\<rparr> \<and>
         parse_frames unpackb decode buf cur c =
           parse_frames unpackb decode buf (cur + (5 + unpackb (slice buf cur (cur + 5))))
             (c\<lparr>log := log c @ [response]\<rparr>) \<and>
         connected (snd (parse_frames unpackb decode buf cur c)) = connected c"
proof -
  have d: "deliver response c = c\<lparr>log := log c @ [response]\<rparr>"
    using assms(3) by (rule deliver_no_waiter)
  have "parse_frames unpackb decode buf cur c =
     parse_frames unpackb decode buf (cur + (5 + unpackb (slice buf cur (cur + 5))))
       (deliver (decode (slice buf (cur + 5) (cur + 5 + unpackb (slice buf cur (cur + 5))))) c)"
    using assms(1) by (rule parse_frames_step)
  then have p: "parse_frames unpackb decode buf cur c =
     parse_frames unpackb decode buf (cur + (5 + unpackb (slice buf cur (cur + 5))))
       (c\<lparr>log := log c @ [response]\<rparr>)"
    using d assms(2) by simp
  have k: "connected (snd (parse_frames unpackb decode buf cur c)) = connected c"
    using parse_frames_frame by blast
  from d p k show ?thesis by blast
qed

theorem reader_discards_unmatched_frame_witness:
  "parse_frames uint32 tiny_response (tiny_frame 42 0 0 @ tiny_frame 1 0 0) 0
     (snd (generate_sync (connect init_conn))) =
   parse_frames uint32 tiny_response (tiny_frame 42 0 0 @ tiny_frame 1 0 0) 8
     ((snd (generate_sync (connect init_conn)))\<lparr>log := [tiny_response [42, 0, 0]]\<rparr>) \<and>
   outcome_of 0
     (snd (parse_frames uint32 tiny_response (tiny_frame 42 0 0 @ tiny_frame 1 0 0) 0
        (snd (generate_sync (connect init_conn))))) = Some (Res (tiny_response [1, 0, 0])) \<and>
   connected
     (snd (parse_frames uint32 tiny_response (tiny_frame 42 0 0 @ tiny_frame 1 0 0) 0
        (snd (generate_sync (connect init_conn)))))"
proof -
  let ?buf = "tiny_frame 42 0 0 @ tiny_frame 1 0 0"
  let ?c = "snd (generate_sync (connect init_conn))"
  have h1: "5 + uint32 (slice ?buf 0 (0 + 5)) \<le> length ?buf - 0" by code_simp
  have h2: "tiny_response [42, 0, 0] =
     tiny_response (slice ?buf (0 + 5) (0 + 5 + uint32 (slice ?buf 0 (0 + 5))))" by code_simp
  have h3: "map_of (waiters ?c) (sync (tiny_response [42, 0, 0])) = None" by code_simp
  have l: "log ?c = []" by code_simp
  have n: "0 + (5 + uint32 (slice ?buf 0 (0 + 5))) = 8" by code_simp
  have k: "connected ?c" by code_simp
  have o: "outcome_of 0 (snd (parse_frames uint32 tiny_response ?buf 0 ?c)) =
     Some (Res (tiny_response [1, 0, 0]))" by code_simp
  note t = reader_discards_unmatched_frame
    [where unpackb = uint32 and decode = tiny_response and buf = ?buf and cur = 0
       and c = ?c and response = "tiny_response [42, 0, 0]"]
  from t [OF h1 h2 h3] have
    a0: "parse_frames uint32 tiny_response ?buf 0 ?c =
      parse_frames uint32 tiny_response ?buf (0 + (5 + uint32 (slice ?buf 0 (0 + 5))))
        (?c\<lparr>log := log ?c @ [tiny_response [42, 0, 0]]\<rparr>)"
    and b0: "connected (snd (parse_frames uint32 tiny_response ?buf 0 ?c)) = connected ?c"
    by blast+
  have a: "parse_frames uint32 tiny_response ?buf 0 ?c =
      parse_frames uint32 tiny_response ?buf 8 (?c\<lparr>log := [tiny_response [42, 0, 0]]\<rparr>)"
    using a0 by (simp only: n l append_Nil)
  have b: "connected (snd (parse_frames uint32 tiny_response ?buf 0 ?c))"
    using b0 k by (simp only:)
  show ?thesis by (rule conjI [OF a conjI [OF o b]])
qed

text \<open>
  C5. For a complete frame whose correlation id has a waiter, the reader loop resolves
  that waiter exactly once, with a \<^verbatim>\<open>DatabaseError\<close> carrying the return code and message
  when the return code is not zero and with the response when it is zero, and deletes
  the entry of that id right after. The invariant of the waiter table is kept: every id
  in the table maps to one future, and that future is unresolved.
\<close>

theorem reader_resolves_matching_waiter:
  assumes "waiters_ok c"
    and "5 + unpackb (slice buf cur (cur + 5)) \<le> length buf - cur"
    and "response = decode (slice buf (cur + 5) (cur + 5 + unpackb (slice buf cur (cur + 5))))"
    and "map_of (waiters c) (sync response) = Some waiter"
    and "result = (if return_code response \<noteq> 0
                   then Exc (DatabaseError (return_code response) (return_message response))
                   else Res response)"
  shows "resolved (deliver response c) = resolved c @ [(waiter, result)] \<and>
         waiters (deliver response c) = AList.delete (sync response) (waiters c) \<and>
         map_of (waiters (deliver response c)) (sync response) = None \<and>
         waiters_ok (deliver response c) \<and>
         parse_frames unpackb decode buf cur c =
           parse_frames unpackb decode buf (cur + (5 + unpackb (slice buf cur (cur + 5))))
             (deliver response c) \<and>
         times_resolved waiter (snd (parse_frames unpackb decode buf cur c)) = 1 \<and>
         outcome_of waiter (snd (parse_frames unpackb decode buf cur c)) = Some result \<and>
         waiters_ok (snd (parse_frames unpackb decode buf cur c))"
proof -
  let ?c1 = "deliver response c"
  let ?next = "cur + (5 + unpackb (slice buf cur (cur + 5)))"
  have d: "?c1 = c\<lparr>resolved := resolved c @ [(waiter, result)],
                    waiters := AList.delete (sync response) (waiters c)\<rparr>"
    using deliver_waiter [OF assms(4)] assms(5) by simp
  have r1: "resolved ?c1 = resolved c @ [(waiter, result)]" by (simp add: d)
  have r2: "waiters ?c1 = AList.delete (sync response) (waiters c)" by (simp add: d)
  have r3: "map_of (waiters ?c1) (sync response) = None" by (simp add: r2 delete_conv')
  have r4: "waiters_ok ?c1" using assms(1) by (rule waiters_ok_deliver)
  have "parse_frames unpackb decode buf cur c =
     parse_frames unpackb decode buf ?next
       (deliver (decode (slice buf (cur + 5) (cur + 5 + unpackb (slice buf cur (cur + 5))))) c)"
    using assms(2) by (rule parse_frames_step)
  then have r5: "parse_frames unpackb decode buf cur c = parse_frames unpackb decode buf ?next ?c1"
    using assms(3) by simp
  have once: "times_resolved waiter ?c1 = 1 \<and> outcome_of waiter ?c1 = Some result \<and>
      waiter \<notin> set (map snd (waiters ?c1))"
    using deliver_resolves_once [OF assms(1) assms(4)] assms(5) by simp
  then have out: "waiter \<notin> set (map snd (waiters ?c1))" by blast
  have rest: "times_resolved waiter (snd (parse_frames unpackb decode buf ?next ?c1)) =
        times_resolved waiter ?c1 \<and>
      outcome_of waiter (snd (parse_frames unpackb decode buf ?next ?c1)) = outcome_of waiter ?c1"
    using parse_frames_other [OF out] by blast
  have r6: "times_resolved waiter (snd (parse_frames unpackb decode buf cur c)) = 1"
    using rest once by (simp add: r5)
  have r7: "outcome_of waiter (snd (parse_frames unpackb decode buf cur c)) = Some result"
    using rest once by (simp add: r5)
  have r8: "waiters_ok (snd (parse_frames unpackb decode buf cur c))"
    using assms(1) by (rule waiters_ok_parse_frames)
  from r1 r2 r3 r4 r5 r6 r7 r8 show ?thesis by blast
qed

theorem reader_resolves_matching_waiter_witness:
  "waiters_ok (snd (generate_sync (connect init_conn))) \<and>
   resolved (deliver (tiny_response [1, 5, 0]) (snd (generate_sync (connect init_conn)))) =
     [(0, Exc (DatabaseError 5 []))] \<and>
   waiters (deliver (tiny_response [1, 5, 0]) (snd (generate_sync (connect init_conn)))) = [] \<and>
   times_resolved 0
     (snd (parse_frames uint32 tiny_response (tiny_frame 1 5 0 @ tiny_frame 1 0 0) 0
        (snd (generate_sync (connect init_conn))))) = 1 \<and>
   outcome_of 0
     (snd (parse_frames uint32 tiny_response (tiny_frame 1 5 0 @ tiny_frame 1 0 0) 0
        (snd (generate_sync (connect init_conn))))) = Some (Exc (DatabaseError 5 []))"
proof -
  let ?buf = "tiny_frame 1 5 0 @ tiny_frame 1 0 0"
  let ?c = "snd (generate_sync (connect init_conn))"
  let ?r = "tiny_response [1, 5, 0]"
  have h1: "waiters_ok ?c" by code_simp
  have h2: "5 + uint32 (slice ?buf 0 (0 + 5)) \<le> length ?buf - 0" by code_simp
  have h3: "?r = tiny_response (slice ?buf (0 + 5) (0 + 5 + uint32 (slice ?buf 0 (0 + 5))))"
    by code_simp
  have h4: "map_of (waiters ?c) (sync ?r) = Some 0" by code_simp
  have h5: "Exc (DatabaseError 5 []) =
     (if return_code ?r \<noteq> 0 then Exc (DatabaseError (return_code ?r) (return_message ?r))
      else Res ?r)" by code_simp
  have e1: "resolved ?c = []" by code_simp
  have e2: "AList.delete (sync ?r) (waiters ?c) = []" by code_simp
  note t = reader_resolves_matching_waiter
    [where unpackb = uint32 and decode = tiny_response and buf = ?buf and cur = 0
       and c = ?c and response = ?r and waiter = 0 and result = "Exc (DatabaseError 5 [])"]
  from t [OF h1 h2 h3 h4 h5] have
    a0: "resolved (deliver ?r ?c) = resolved ?c @ [(0, Exc (DatabaseError 5 []))]"
    and b0: "waiters (deliver ?r ?c) = AList.delete (sync ?r) (waiters ?c)"
    and c0: "times_resolved 0 (snd (parse_frames uint32 tiny_response ?buf 0 ?c)) = 1"
    and d0: "outcome_of 0 (snd (parse_frames uint32 tiny_response ?buf 0 ?c)) =
              Some (Exc (DatabaseError 5 []))"
    by blast+
  have a: "resolved (deliver ?r ?c) = [(0, Exc (DatabaseError 5 []))]"
    using a0 by (simp only: e1 append_Nil)
  have b: "waiters (deliver ?r ?c) = []" using b0 by (simp only: e2)
  show ?thesis by (rule conjI [OF h1 conjI [OF a conjI [OF b conjI [OF c0 d0]]]])
qed

text \<open>
  C10. When the id that \<^verbatim>\<open>generate_sync\<close> allocates is still present in the waiter table,
  as happens when the counter wraps around, the allocation replaces the pending future
  stored under it: the returned id maps to a new unresolved future, and the future that
  was stored before is no longer in the table, is still unresolved, and stays
  unresolved and outside the table whatever the reader and writer loops do afterwards.
\<close>

theorem generate_sync_replaces_pending_waiter:
  assumes "waiters_ok c"
    and "generate_sync c = (s, c1)"
    and "map_of (waiters c) s = Some old"
  shows "map_of (waiters c1) s = Some (next_future c) \<and>
         next_future c \<noteq> old \<and>
         unresolved (next_future c) c1 \<and>
         old \<notin> set (map snd (waiters c1)) \<and>
         unresolved old c1 \<and>
         (\<forall>acts. unresolved old (run_activities unpackb decode acts c1) \<and>
                 old \<notin> set (map snd (waiters (run_activities unpackb decode acts c1)))) \<and>
         waiters_ok c1 \<and>
         (req_num c = 10000000 \<longrightarrow> s = 0)"
proof -
  have s: "s = fst (generate_sync c)" and c1: "c1 = snd (generate_sync c)"
    using assms(2) by simp_all
  have w: "waiters c1 = AList.update s (next_future c) (waiters c)"
    and r: "resolved c1 = resolved c"
    unfolding c1 s by (simp_all add: generate_sync_def Let_def)
  have f: "map_of (waiters c1) s = Some (next_future c) \<and> unresolved (next_future c) c1 \<and>
         next_future c \<notin> set (map snd (waiters c))"
    using assms(1) w r by (rule register_fresh)
  have d: "next_future c \<noteq> old \<and> old \<notin> set (map snd (waiters c1)) \<and> unresolved old c1"
    using assms(1) w r assms(3) by (rule register_drops_old)
  then have out: "old \<notin> set (map snd (waiters c1))" and u: "unresolved old c1" by blast+
  have later: "\<forall>acts. unresolved old (run_activities unpackb decode acts c1) \<and>
                 old \<notin> set (map snd (waiters (run_activities unpackb decode acts c1)))"
  proof
    fix acts
    have "outcome_of old (run_activities unpackb decode acts c1) = outcome_of old c1 \<and>
      old \<notin> set (map snd (waiters (run_activities unpackb decode acts c1)))"
      using run_activities_other [OF out] by blast
    then show "unresolved old (run_activities unpackb decode acts c1) \<and>
                 old \<notin> set (map snd (waiters (run_activities unpackb decode acts c1)))"
      using u by (simp add: unresolved_def)
  qed
  have ok: "waiters_ok c1" unfolding c1 using assms(1) by (rule waiters_ok_generate_sync)
  have wrap: "req_num c = 10000000 \<longrightarrow> s = 0" unfolding s by (simp add: generate_sync_fst)
  from f d later ok wrap show ?thesis by blast
qed

theorem generate_sync_replaces_pending_waiter_witness:
  "waiters_ok ((connect init_conn)\<lparr>req_num := 10000000, waiters := [(0, 4)], next_future := 5\<rparr>) \<and>
   fst (generate_sync
      ((connect init_conn)\<lparr>req_num := 10000000, waiters := [(0, 4)], next_future := 5\<rparr>)) = 0 \<and>
   map_of (waiters (snd (generate_sync
      ((connect init_conn)\<lparr>req_num := 10000000, waiters := [(0, 4)], next_future := 5\<rparr>)))) 0 =
     Some 5 \<and>
   unresolved 4
     (run_activities uint32 tiny_response [Recv (tiny_frame 0 0 0), Drain, Recv []]
        (snd (generate_sync
           ((connect init_conn)\<lparr>req_num := 10000000, waiters := [(0, 4)], next_future := 5\<rparr>)))) \<and>
   outcome_of 5
     (run_activities uint32 tiny_response [Recv (tiny_frame 0 0 0), Drain, Recv []]
        (snd (generate_sync
           ((connect init_conn)\<lparr>req_num := 10000000, waiters := [(0, 4)], next_future := 5\<rparr>)))) =
     Some (Res (tiny_response [0, 0, 0]))"
proof -
  let ?c = "(connect init_conn)\<lparr>req_num := 10000000, waiters := [(0, 4)], next_future := 5\<rparr>"
  let ?acts = "[Recv (tiny_frame 0 0 0), Drain, Recv []]"
  have h1: "waiters_ok ?c" by code_simp
  have h2: "generate_sync ?c = (0, snd (generate_sync ?c))" by code_simp
  have h3: "map_of (waiters ?c) 0 = Some 4" by code_simp
  have n: "next_future ?c = 5" by code_simp
  have z: "fst (generate_sync ?c) = 0" by code_simp
  have o: "outcome_of 5 (run_activities uint32 tiny_response ?acts (snd (generate_sync ?c))) =
     Some (Res (tiny_response [0, 0, 0]))" by code_simp
  note t = generate_sync_replaces_pending_waiter
    [where c = ?c and s = 0 and ?c1.0 = "snd (generate_sync ?c)" and old = 4
       and unpackb = uint32 and decode = tiny_response, OF h1 h2 h3]
  from t have a0: "map_of (waiters (snd (generate_sync ?c))) 0 = Some (next_future ?c)" by blast
  have a: "map_of (waiters (snd (generate_sync ?c))) 0 = Some 5" using a0 by (simp only: n)
  from t have b: "unresolved 4 (run_activities uint32 tiny_response ?acts (snd (generate_sync ?c)))"
    by blast
  show ?thesis by (rule conjI [OF h1 conjI [OF z conjI [OF a conjI [OF b o]]]])
qed

text \<open>
  C7. Let \<open>rs\<close> be the responses the successive awaits of a call of \<^verbatim>\<open>_send_request\<close>
  resume with, and let the maximum number of attempts be positive. If every one of the
  attempts resumed with a response of completion status 1 (retry needed), the call
  raises a \<^verbatim>\<open>DatabaseError\<close> carrying the return code and message of the last response
  received. If the last response received has another completion status, the call
  returns that response. A response with another completion status is returned at once:
  the state the call ends in is the state at the moment the await resumed.
\<close>

theorem retry_exhaustion_raises_last_response:
  assumes "0 < RETRY_MAX_ATTEMPTS"
    and "c0 = (if \<not> connected c then connect c else c)"
    and "responses_seen unpackb decode RETRY_MAX_ATTEMPTS request sched c0 = rs"
  shows "(length rs = RETRY_MAX_ATTEMPTS \<and> (\<forall>r \<in> set rs. completion_status r = 1) \<longrightarrow>
            fst (send_request unpackb decode RETRY_MAX_ATTEMPTS request sched c) =
              Raised (DatabaseError (return_code (last rs)) (return_message (last rs)))) \<and>
         (rs \<noteq> [] \<and> completion_status (last rs) \<noteq> 1 \<longrightarrow>
            fst (send_request unpackb decode RETRY_MAX_ATTEMPTS request sched c) =
              Returned (last rs)) \<and>
         (\<forall>n prev d w d1 r.
            send_attempt request d = (Inr w, d1) \<and>
            outcome_of w (run_activities unpackb decode (next_acts sched) d1) = Some (Res r) \<and>
            completion_status r \<noteq> 1 \<longrightarrow>
            send_loop unpackb decode (Suc n) request sched prev d =
              (Returned r, run_activities unpackb decode (next_acts sched) d1))"
proof -
  have sr: "send_request unpackb decode RETRY_MAX_ATTEMPTS request sched c =
      send_loop unpackb decode RETRY_MAX_ATTEMPTS request sched None c0"
    unfolding assms(2) by (simp add: send_request_def)
  note l = send_loop_responses [OF assms(3), of None]
  have a: "length rs = RETRY_MAX_ATTEMPTS \<and> (\<forall>r \<in> set rs. completion_status r = 1) \<longrightarrow>
            fst (send_request unpackb decode RETRY_MAX_ATTEMPTS request sched c) =
              Raised (DatabaseError (return_code (last rs)) (return_message (last rs)))"
  proof
    assume h: "length rs = RETRY_MAX_ATTEMPTS \<and> (\<forall>r \<in> set rs. completion_status r = 1)"
    with assms(1) have ne: "rs \<noteq> []" by auto
    from l h have "fst (send_loop unpackb decode RETRY_MAX_ATTEMPTS request sched None c0) =
        (case (if rs = [] then None else Some (last rs)) of
           None \<Rightarrow> Raised UnboundLocalError
         | Some r \<Rightarrow> Raised (DatabaseError (return_code r) (return_message r)))"
      by blast
    with ne show "fst (send_request unpackb decode RETRY_MAX_ATTEMPTS request sched c) =
              Raised (DatabaseError (return_code (last rs)) (return_message (last rs)))"
      unfolding sr by simp
  qed
  have b: "rs \<noteq> [] \<and> completion_status (last rs) \<noteq> 1 \<longrightarrow>
            fst (send_request unpackb decode RETRY_MAX_ATTEMPTS request sched c) =
              Returned (last rs)"
    unfolding sr using l by blast
  have i: "\<forall>n prev d w d1 r.
            send_attempt request d = (Inr w, d1) \<and>
            outcome_of w (run_activities unpackb decode (next_acts sched) d1) = Some (Res r) \<and>
            completion_status r \<noteq> 1 \<longrightarrow>
            send_loop unpackb decode (Suc n) request sched prev d =
              (Returned r, run_activities unpackb decode (next_acts sched) d1)"
    using send_loop_returns_at_once by blast
  from a b i show ?thesis by blast
qed

theorem retry_exhaustion_raises_last_response_witness:
  "responses_seen uint32 tiny_response 2 \<lparr>request_sync = 1, request_bytes = [7, 7]\<rparr>
     [[Recv (frame_of [1, 0, 1, 97])], [Recv (frame_of [1, 0, 1, 98])]]
     (connect (snd (generate_sync init_conn))) =
     [tiny_response [1, 0, 1, 97], tiny_response [1, 0, 1, 98]] \<and>
   fst (send_request uint32 tiny_response 2 \<lparr>request_sync = 1, request_bytes = [7, 7]\<rparr>
     [[Recv (frame_of [1, 0, 1, 97])], [Recv (frame_of [1, 0, 1, 98])]]
     (snd (generate_sync init_conn))) = Raised (DatabaseError 0 ''b'') \<and>
   fst (send_request uint32 tiny_response 2 \<lparr>request_sync = 1, request_bytes = [7, 7]\<rparr>
     [[Recv (frame_of [1, 0, 1, 97])], [Recv (frame_of [1, 0, 0, 98])]]
     (snd (generate_sync init_conn))) = Returned (tiny_response [1, 0, 0, 98])"
proof -
  let ?rq = "\<lparr>request_sync = 1, request_bytes = [7, 7]\<rparr> :: request"
  let ?c = "snd (generate_sync init_conn)"
  let ?s1 = "[[Recv (frame_of [1, 0, 1, 97])], [Recv (frame_of [1, 0, 1, 98])]]"
  let ?s2 = "[[Recv (frame_of [1, 0, 1, 97])], [Recv (frame_of [1, 0, 0, 98])]]"
  let ?a = "tiny_response [1, 0, 1, 97]"
  let ?b = "tiny_response [1, 0, 1, 98]"
  let ?f = "tiny_response [1, 0, 0, 98]"
  have h1: "0 < (2 :: nat)" by simp
  have h2: "connect ?c = (if \<not> connected ?c then connect ?c else ?c)" by code_simp
  have r1: "responses_seen uint32 tiny_response 2 ?rq ?s1 (connect ?c) = [?a, ?b]" by code_simp
  have r2: "responses_seen uint32 tiny_response 2 ?rq ?s2 (connect ?c) = [?a, ?f]" by code_simp
  have p1: "length [?a, ?b] = 2 \<and> (\<forall>r \<in> set [?a, ?b]. completion_status r = 1)" by code_simp
  have p2: "[?a, ?f] \<noteq> [] \<and> completion_status (last [?a, ?f]) \<noteq> 1" by code_simp
  have e1: "DatabaseError (return_code (last [?a, ?b])) (return_message (last [?a, ?b])) =
      DatabaseError 0 ''b''" by code_simp
  have e2: "last [?a, ?f] = ?f" by simp
  note t1 = retry_exhaustion_raises_last_response
    [where unpackb = uint32 and decode = tiny_response and request = ?rq and sched = ?s1
       and c = ?c and ?c0.0 = "connect ?c" and rs = "[?a, ?b]", OF h1 h2 r1]
  note t2 = retry_exhaustion_raises_last_response
    [where unpackb = uint32 and decode = tiny_response and request = ?rq and sched = ?s2
       and c = ?c and ?c0.0 = "connect ?c" and rs = "[?a, ?f]", OF h1 h2 r2]
  from t1 p1 have x0: "fst (send_request uint32 tiny_response 2 ?rq ?s1 ?c) =
      Raised (DatabaseError (return_code (last [?a, ?b])) (return_message (last [?a, ?b])))"
    by blast
  have x: "fst (send_request uint32 tiny_response 2 ?rq ?s1 ?c) = Raised (DatabaseError 0 ''b'')"
    using x0 by (simp only: e1)
  from t2 p2 have y0: "fst (send_request uint32 tiny_response 2 ?rq ?s2 ?c) =
      Returned (last [?a, ?f])"
    by blast
  have y: "fst (send_request uint32 tiny_response 2 ?rq ?s2 ?c) = Returned ?f"
    using y0 by (simp only: e2)
  show ?thesis by (rule conjI [OF r1 conjI [OF x y]])
qed

text \<open>
  C1. The claim that the request's bytes are enqueued once over all retry iterations
  fails: the append of line 295 stands inside the loop. When the first response of a
  dispatch has completion status 1 and the second is final, the call returns the second
  response and the outbound buffer holds the request's bytes twice.
\<close>

theorem retry_does_not_resend_counterexample:
  "fst (dispatch uint32 tiny_response 3 (\<lambda>s. [7, 7])
          [[Recv (frame_of [1, 0, 1, 97])], [Recv (tiny_frame 1 0 0)]] init_conn) =
     Returned (tiny_response [1, 0, 0]) \<and>
   notices (snd (dispatch uint32 tiny_response 3 (\<lambda>s. [7, 7])
          [[Recv (frame_of [1, 0, 1, 97])], [Recv (tiny_frame 1 0 0)]] init_conn)) = [''a''] \<and>
   sent (snd (dispatch uint32 tiny_response 3 (\<lambda>s. [7, 7])
          [[Recv (frame_of [1, 0, 1, 97])], [Recv (tiny_frame 1 0 0)]] init_conn)) = [] \<and>
   write_buf (snd (dispatch uint32 tiny_response 3 (\<lambda>s. [7, 7])
          [[Recv (frame_of [1, 0, 1, 97])], [Recv (tiny_frame 1 0 0)]] init_conn)) =
     Some ([7, 7] @ [7, 7])"
  by code_simp

text \<open>
  C1, as amended. When a resolved response has completion status 1, the dispatcher
  stores a new pending future under the same correlation id, emits the retry notice and
  starts the next attempt, which appends the request's bytes to the outbound buffer
  again. Every attempt enqueues the bytes once: a call that returns a response after
  \<open>k\<close> retry notices, on a connection that is still connected, has enqueued the
  request's bytes \<open>k + 1\<close> times.
\<close>

theorem retry_resends_request:
  assumes "send_request unpackb decode RETRY_MAX_ATTEMPTS request sched c = (Returned r, c')"
    and "connected c'"
    and "c0 = (if \<not> connected c then connect c else c)"
  shows "length (notices c) \<le> length (notices c') \<and>
         outbound c' =
           outbound c0 @
           concat (replicate (Suc (length (notices c') - length (notices c)))
             (request_bytes request)) \<and>
         (\<forall>r0 d. map_of (waiters (retry_register request r0 d)) (request_sync request) =
                    Some (next_future d) \<and>
                 notices (retry_register request r0 d) = notices d @ [return_message r0] \<and>
                 outbound (retry_register request r0 d) = outbound d) \<and>
         (\<forall>d w d1. send_attempt request d = (Inr w, d1) \<longrightarrow>
                 outbound d1 = outbound d @ request_bytes request)"
proof -
  have sl: "send_loop unpackb decode RETRY_MAX_ATTEMPTS request sched None c0 = (Returned r, c')"
    using assms(1) unfolding assms(3) by (simp add: send_request_def)
  have n0: "notices c0 = notices c" unfolding assms(3) by (simp add: connect_def)
  from send_loop_outbound [OF sl assms(2)] have
    a: "length (notices c) \<le> length (notices c') \<and>
        outbound c' =
           outbound c0 @
           concat (replicate (Suc (length (notices c') - length (notices c)))
             (request_bytes request))"
    unfolding n0 by blast
  have b: "\<forall>r0 d. map_of (waiters (retry_register request r0 d)) (request_sync request) =
                    Some (next_future d) \<and>
                 notices (retry_register request r0 d) = notices d @ [return_message r0] \<and>
                 outbound (retry_register request r0 d) = outbound d"
    using retry_register_frame by blast
  have d: "\<forall>d w d1. send_attempt request d = (Inr w, d1) \<longrightarrow>
                 outbound d1 = outbound d @ request_bytes request"
    using send_attempt_outbound by blast
  from a b d show ?thesis by blast
qed

theorem retry_resends_request_witness:
  "send_request uint32 tiny_response 3 \<lparr>request_sync = 1, request_bytes = [7, 7]\<rparr>
     [[Recv (frame_of [1, 0, 1, 97]), Drain], [Recv (frame_of [1, 0, 1, 98])],
      [Recv (tiny_frame 1 0 0)]]
     (snd (generate_sync init_conn)) =
   (Returned (tiny_response [1, 0, 0]),
    snd (send_request uint32 tiny_response 3 \<lparr>request_sync = 1, request_bytes = [7, 7]\<rparr>
     [[Recv (frame_of [1, 0, 1, 97]), Drain], [Recv (frame_of [1, 0, 1, 98])],
      [Recv (tiny_frame 1 0 0)]]
     (snd (generate_sync init_conn)))) \<and>
   notices (snd (send_request uint32 tiny_response 3 \<lparr>request_sync = 1, request_bytes = [7, 7]\<rparr>
     [[Recv (frame_of [1, 0, 1, 97]), Drain], [Recv (frame_of [1, 0, 1, 98])],
      [Recv (tiny_frame 1 0 0)]]
     (snd (generate_sync init_conn)))) = [''a'', ''b''] \<and>
   outbound (snd (send_request uint32 tiny_response 3 \<lparr>request_sync = 1, request_bytes = [7, 7]\<rparr>
     [[Recv (frame_of [1, 0, 1, 97]), Drain], [Recv (frame_of [1, 0, 1, 98])],
      [Recv (tiny_frame 1 0 0)]]
     (snd (generate_sync init_conn)))) = [7, 7, 7, 7, 7, 7]"
proof -
  let ?rq = "\<lparr>request_sync = 1, request_bytes = [7, 7]\<rparr> :: request"
  let ?c = "snd (generate_sync init_conn)"
  let ?s = "[[Recv (frame_of [1, 0, 1, 97]), Drain], [Recv (frame_of [1, 0, 1, 98])],
      [Recv (tiny_frame 1 0 0)]]"
  let ?run = "send_request uint32 tiny_response 3 ?rq ?s ?c"
  have h1: "?run = (Returned (tiny_response [1, 0, 0]), snd ?run)" by code_simp
  have h2: "connected (snd ?run)" by code_simp
  have h3: "connect ?c = (if \<not> connected ?c then connect ?c else ?c)" by code_simp
  have n: "notices (snd ?run) = [''a'', ''b'']" by code_simp
  have e: "outbound (connect ?c) @
      concat (replicate (Suc (length [''a'', ''b''] - length (notices ?c))) (request_bytes ?rq)) =
      [7, 7, 7, 7, 7, 7]" by code_simp
  note t = retry_resends_request
    [where unpackb = uint32 and decode = tiny_response and request = ?rq and sched = ?s
       and c = ?c and c' = "snd ?run" and r = "tiny_response [1, 0, 0]"
       and ?c0.0 = "connect ?c" and RETRY_MAX_ATTEMPTS = 3, OF h1 h2 h3]
  from t have o0: "outbound (snd ?run) =
      outbound (connect ?c) @
      concat (replicate (Suc (length (notices (snd ?run)) - length (notices ?c)))
        (request_bytes ?rq))" by blast
  have o: "outbound (snd ?run) = [7, 7, 7, 7, 7, 7]" using o0 by (simp only: n e)
  show ?thesis by (rule conjI [OF h1 conjI [OF n o]])
qed

text \<open>
  C8. The claim fails on a cache miss in two places. A single row that is empty does
  not construct a descriptor: the guard of line 86 raises the space-not-found error and
  the cache stays as it was. More than one row does not raise a \<^verbatim>\<open>SchemaError\<close>: the
  message of line 84 adds a string and the response, which raises \<^verbatim>\<open>TypeError\<close>.
\<close>

theorem get_space_rows_counterexample:
  "get_space first_int third_str [] (ByName ''users'')
     (Inr \<lparr>sync = 1, return_code = 0, completion_status = 0, return_message = [],
           rows = [[]]\<rparr>) =
     (Inl (SchemaError ''name'' (ByName ''users'')), []) \<and>
   get_space first_int third_str [] (ByName ''users'')
     (Inr \<lparr>sync = 1, return_code = 0, completion_status = 0, return_message = [],
           rows = [[IntV 512, IntV 1, StrV ''users''], [IntV 513, IntV 1, StrV ''users'']]\<rparr>) =
     (Inl TypeError, [])"
  by code_simp

text \<open>
  C8, as amended. A schema space lookup on a cache miss inspects the rows returned by
  the select on the system space: no row, or one row that is empty, raises the
  space-not-found schema error and leaves the cache as it was; exactly one row that is
  not empty constructs the descriptor of the space (id, name, empty index registry),
  caches it under its id and under its name, and returns it.
\<close>

theorem get_space_on_miss:
  assumes "map_of schema space = None"
  shows "(rows array = [] \<or> rows array = [[]] \<longrightarrow>
            get_space row_sid row_name schema space (Inr array) =
              (Inl (SchemaError (temp_name space) space), schema)) \<and>
         (\<forall>array0 sp. rows array = [array0] \<and> array0 \<noteq> [] \<and>
            sp = \<lparr>sid = row_sid array0, name = row_name array0, indexes = []\<rparr> \<longrightarrow>
            fst (get_space row_sid row_name schema space (Inr array)) = Inr sp \<and>
            map_of (snd (get_space row_sid row_name schema space (Inr array))) (ById (sid sp)) =
              Some sp \<and>
            map_of (snd (get_space row_sid row_name schema space (Inr array))) (ByName (name sp)) =
              Some sp) \<and>
         temp_name (ByName n) = ''name'' \<and> temp_name (ById i) = ''id''"
proof (intro conjI impI allI)
  assume "rows array = [] \<or> rows array = [[]]"
  with assms show "get_space row_sid row_name schema space (Inr array) =
              (Inl (SchemaError (temp_name space) space), schema)"
    by (rule get_space_not_found)
next
  fix array0 sp
  assume a: "rows array = [array0] \<and> array0 \<noteq> [] \<and>
            sp = \<lparr>sid = row_sid array0, name = row_name array0, indexes = []\<rparr>"
  then have g: "get_space row_sid row_name schema space (Inr array) =
           (Inr sp, AList.update (ByName (name sp)) sp (AList.update (ById (sid sp)) sp schema))"
    using assms get_space_found by blast
  show "fst (get_space row_sid row_name schema space (Inr array)) = Inr sp" by (simp add: g)
  show "map_of (snd (get_space row_sid row_name schema space (Inr array))) (ById (sid sp)) = Some sp"
    unfolding g using cached_both_keys [of "name sp" sp "sid sp" schema] by simp
  show "map_of (snd (get_space row_sid row_name schema space (Inr array))) (ByName (name sp)) =
      Some sp"
    unfolding g using cached_both_keys [of "name sp" sp "sid sp" schema] by simp
next
  show "temp_name (ByName n) = ''name''" by (simp add: temp_name_def)
  show "temp_name (ById i) = ''id''" by (simp add: temp_name_def)
qed

theorem get_space_on_miss_witness:
  "get_space first_int third_str [] (ById 512)
     (Inr \<lparr>sync = 1, return_code = 0, completion_status = 0, return_message = [], rows = []\<rparr>) =
     (Inl (SchemaError ''id'' (ById 512)), []) \<and>
   fst (get_space first_int third_str [] (ByName ''users'')
     (Inr \<lparr>sync = 1, return_code = 0, completion_status = 0, return_message = [],
           rows = [[IntV 512, IntV 1, StrV ''users'']]\<rparr>)) =
     Inr \<lparr>sid = 512, name = ''users'', indexes = []\<rparr> \<and>
   map_of (snd (get_space first_int third_str [] (ByName ''users'')
     (Inr \<lparr>sync = 1, return_code = 0, completion_status = 0, return_message = [],
           rows = [[IntV 512, IntV 1, StrV ''users'']]\<rparr>))) (ById 512) =
     Some \<lparr>sid = 512, name = ''users'', indexes = []\<rparr> \<and>
   map_of (snd (get_space first_int third_str [] (ByName ''users'')
     (Inr \<lparr>sync = 1, return_code = 0, completion_status = 0, return_message = [],
           rows = [[IntV 512, IntV 1, StrV ''users'']]\<rparr>))) (ByName ''users'') =
     Some \<lparr>sid = 512, name = ''users'', indexes = []\<rparr>"
proof -
  let ?none = "\<lparr>sync = 1, return_code = 0, completion_status = 0, return_message = [],
                rows = []\<rparr> :: response"
  let ?row = "[IntV 512, IntV 1, StrV ''users'']"
  let ?one = "\<lparr>sync = 1, return_code = 0, completion_status = 0, return_message = [],
               rows = [?row]\<rparr> :: response"
  let ?sp = "\<lparr>sid = 512, name = ''users'', indexes = []\<rparr> :: schema_space"
  have m1: "map_of ([] :: schema) (ById 512) = None" by simp
  have m2: "map_of ([] :: schema) (ByName ''users'') = None" by simp
  have z: "rows ?none = [] \<or> rows ?none = [[]]" by simp
  have o: "rows ?one = [?row] \<and> ?row \<noteq> [] \<and>
      ?sp = \<lparr>sid = first_int ?row, name = third_str ?row, indexes = []\<rparr>"
    by (simp add: first_int_def third_str_def)
  have k: "temp_name (ById 512) = ''id''" by (simp add: temp_name_def)
  have s: "sid ?sp = 512" "name ?sp = ''users''" by simp_all
  note t1 = get_space_on_miss
    [where schema = "[]" and space = "ById 512" and array = ?none and row_sid = first_int
       and row_name = third_str, OF m1]
  note t2 = get_space_on_miss
    [where schema = "[]" and space = "ByName ''users''" and array = ?one and row_sid = first_int
       and row_name = third_str, OF m2]
  from t1 z have a0: "get_space first_int third_str [] (ById 512) (Inr ?none) =
      (Inl (SchemaError (temp_name (ById 512)) (ById 512)), [])" by blast
  have a: "get_space first_int third_str [] (ById 512) (Inr ?none) =
      (Inl (SchemaError ''id'' (ById 512)), [])" using a0 by (simp only: k)
  from t2 o have b: "fst (get_space first_int third_str [] (ByName ''users'') (Inr ?one)) = Inr ?sp"
    by blast
  from t2 o have c0: "map_of (snd (get_space first_int third_str [] (ByName ''users'') (Inr ?one)))
      (ById (sid ?sp)) = Some ?sp" by blast
  from t2 o have d0: "map_of (snd (get_space first_int third_str [] (ByName ''users'') (Inr ?one)))
      (ByName (name ?sp)) = Some ?sp" by blast
  have c: "map_of (snd (get_space first_int third_str [] (ByName ''users'') (Inr ?one)))
      (ById 512) = Some ?sp" using c0 by (simp only: s)
  have d: "map_of (snd (get_space first_int third_str [] (ByName ''users'') (Inr ?one)))
      (ByName ''users'') = Some ?sp" using d0 by (simp only: s)
  show ?thesis by (rule conjI [OF a conjI [OF b conjI [OF c d]]])
qed




text \<open>
  C9. The claim that at no point a response for the id of a dispatched operation can
  arrive while the id has no waiter fails during a retry. The reader deletes the entry
  when it resolves the waiter (line 276), and \<^verbatim>\<open>_send_request\<close> stores the next future
  only after it was resumed (line 304). When one read holds a response that asks for a
  retry and, behind it, the final response for the same id, the second one finds no
  waiter: it is logged and dropped (lines 266 to 268), the request is sent again and the
  call waits for a response that has already come.
\<close>

theorem waiter_before_response_counterexample:
  "map_of (waiters (deliver (tiny_response [1, 0, 1])
      (snd (dispatch uint32 tiny_response 3 (\<lambda>s. [7, 7]) [] init_conn)))) 1 = None \<and>
   fst (dispatch uint32 tiny_response 3 (\<lambda>s. [7, 7])
          [[Recv (tiny_frame 1 0 1 @ tiny_frame 1 0 0)]] init_conn) = Suspended \<and>
   log (snd (dispatch uint32 tiny_response 3 (\<lambda>s. [7, 7])
          [[Recv (tiny_frame 1 0 1 @ tiny_frame 1 0 0)]] init_conn)) =
     [tiny_response [1, 0, 0]] \<and>
   resolved (snd (dispatch uint32 tiny_response 3 (\<lambda>s. [7, 7])
          [[Recv (tiny_frame 1 0 1 @ tiny_frame 1 0 0)]] init_conn)) =
     [(0, Res (tiny_response [1, 0, 1]))] \<and>
   waiters (snd (dispatch uint32 tiny_response 3 (\<lambda>s. [7, 7])
          [[Recv (tiny_frame 1 0 1 @ tiny_frame 1 0 0)]] init_conn)) = [(1, 1)] \<and>
   outbound (snd (dispatch uint32 tiny_response 3 (\<lambda>s. [7, 7])
          [[Recv (tiny_frame 1 0 1 @ tiny_frame 1 0 0)]] init_conn)) = [7, 7, 7, 7]"
  by code_simp

text \<open>
  C9, as amended. A dispatched operation registers a new, unresolved future under its
  newly allocated id, and appends nothing while it does; the sending segment appends
  the bytes only when it has found a waiter under the id, and otherwise raises and
  leaves the connection as it was. A dispatch that nothing answers is suspended with
  that future in the table and the bytes in the buffer. The first response for the id
  that arrives in this suspension finds the waiter and reaches the caller: as a
  \<^verbatim>\<open>DatabaseError\<close> when its return code is not zero, as the result when the code is
  zero and no retry is asked for, and as the start of the next attempt otherwise. From
  the moment the waiter is resolved the id has no entry, and a further response for
  the id is only logged, until the retry stores a new future under the id, which it
  does before it appends the bytes again.
\<close>

theorem dispatch_registers_waiter_before_send:
  assumes ok: "waiters_ok c"
    and wb: "connected c \<longrightarrow> write_buf c \<noteq> None"
    and rq: "new_request encode c = (request, c1)"
    and c2: "c2 = (if \<not> connected c1 then connect c1 else c1)"
    and c3: "c3 = snd (send_attempt request c2)"
  shows "map_of (waiters c1) (request_sync request) = Some (next_future c) \<and>
         unresolved (next_future c) c1 \<and>
         next_future c \<notin> set (map snd (waiters c)) \<and>
         write_buf c1 = write_buf c \<and> sent c1 = sent c \<and>
         (\<forall>d w d'. send_attempt request d = (Inr w, d') \<longrightarrow>
            map_of (waiters d) (request_sync request) = Some w) \<and>
         (\<forall>d. map_of (waiters d) (request_sync request) = None \<longrightarrow>
            send_attempt request d = (Inl (KeyError (request_sync request)), d)) \<and>
         (\<exists>wb. write_buf c2 = Some wb \<and>
            c3 = c2\<lparr>write_buf := Some (wb @ request_bytes request), write_event := Some True\<rparr>) \<and>
         dispatch unpackb decode (Suc n) encode [] c = (Suspended, c3) \<and>
         map_of (waiters c3) (request_sync request) = Some (next_future c) \<and>
         unresolved (next_future c) c3 \<and>
         (\<forall>r. sync r = request_sync request \<longrightarrow>
            outcome_of (next_future c) (deliver r c3) =
              Some (if return_code r \<noteq> 0
                    then Exc (DatabaseError (return_code r) (return_message r)) else Res r) \<and>
            map_of (waiters (deliver r c3)) (request_sync request) = None \<and>
            (\<forall>r'. sync r' = request_sync request \<longrightarrow>
               deliver r' (deliver r c3) = (deliver r c3)\<lparr>log := log (deliver r c3) @ [r']\<rparr>)) \<and>
         (\<forall>tmp_buf sched r.
            tmp_buf \<noteq> [] \<and> \<not> reader_waits c \<and>
            5 + unpackb (slice (reader_buf c2 @ tmp_buf) 0 5) \<le> length (reader_buf c2 @ tmp_buf) \<and>
            r = decode (slice (reader_buf c2 @ tmp_buf) 5
                  (5 + unpackb (slice (reader_buf c2 @ tmp_buf) 0 5))) \<and>
            sync r = request_sync request \<longrightarrow>
            map_of (waiters (run_activities unpackb decode [Recv tmp_buf] c3))
              (request_sync request) = None \<and>
            dispatch unpackb decode (Suc n) encode ([Recv tmp_buf] # sched) c =
              (if return_code r \<noteq> 0
               then (Raised (DatabaseError (return_code r) (return_message r)),
                     run_activities unpackb decode [Recv tmp_buf] c3)
               else if completion_status r \<noteq> 1
               then (Returned r, run_activities unpackb decode [Recv tmp_buf] c3)
               else send_loop unpackb decode n request sched (Some r)
                      (retry_register request r
                         (run_activities unpackb decode [Recv tmp_buf] c3)))) \<and>
         (\<forall>r d. map_of (waiters (retry_register request r d)) (request_sync request) =
                   Some (next_future d) \<and>
                 outbound (retry_register request r d) = outbound d)"
proof -
  let ?s = "fst (generate_sync c)"
  let ?w = "next_future c"
  have rq': "request = \<lparr>request_sync = ?s, request_bytes = encode ?s\<rparr>"
    and c1: "c1 = snd (generate_sync c)"
    using rq by (simp_all add: new_request_eq)
  have sy: "request_sync request = ?s" by (simp add: rq')
  have w1: "waiters c1 = AList.update (request_sync request) ?w (waiters c)"
    and r1: "resolved c1 = resolved c"
    and wb1: "write_buf c1 = write_buf c" and s1: "sent c1 = sent c"
    and k1: "connected c1 = connected c"
    and rw1: "reader_waits c1 = reader_waits c"
    unfolding c1 sy by (simp_all add: generate_sync_def Let_def)
  have f: "map_of (waiters c1) (request_sync request) = Some ?w \<and>
         unresolved ?w c1 \<and> ?w \<notin> set (map snd (waiters c))"
    using ok w1 r1 by (rule register_fresh)
  then have m1: "map_of (waiters c1) (request_sync request) = Some ?w"
    and u1: "unresolved ?w c1" by blast+
  have ok1: "waiters_ok c1" unfolding c1 using ok by (rule waiters_ok_generate_sync)
  have same2: "waiters c2 = waiters c1 \<and> resolved c2 = resolved c1 \<and>
      next_future c2 = next_future c1"
    unfolding c2 using connect_same [of c1] by simp
  have k2: "connected c2" unfolding c2 using connect_same [of c1] by simp
  have rw2: "reader_waits c2 = reader_waits c" unfolding c2 using rw1 by (simp add: connect_def)
  have ok2: "waiters_ok c2" using ok1 same2 waiters_ok_cong by blast
  have m2: "map_of (waiters c2) (request_sync request) = Some ?w" using m1 same2 by simp
  have "write_buf c2 \<noteq> None"
  proof (cases "connected c1")
    case True
    then show ?thesis using wb c2 k1 wb1 by simp
  next
    case False
    then show ?thesis using c2 by (simp add: connect_def)
  qed
  then obtain b where b: "write_buf c2 = Some b" by blast
  have sa: "send_attempt request c2 =
      (Inr ?w, c2\<lparr>write_buf := Some (b @ request_bytes request), write_event := Some True\<rparr>)"
    using m2 b by (rule send_attempt_sends)
  have c3': "c3 = c2\<lparr>write_buf := Some (b @ request_bytes request), write_event := Some True\<rparr>"
    unfolding c3 by (simp add: sa)
  have sa3: "send_attempt request c2 = (Inr ?w, c3)" using sa c3' by simp
  have same3: "waiters c3 = waiters c2 \<and> resolved c3 = resolved c2 \<and>
      next_future c3 = next_future c2"
    by (simp add: c3')
  have k3: "connected c3" using k2 by (simp add: c3')
  have rw3: "reader_waits c3 = reader_waits c" using rw2 by (simp add: c3')
  have rb3: "reader_buf c3 = reader_buf c2" by (simp add: c3')
  have ok3: "waiters_ok c3" using ok2 same3 waiters_ok_cong by blast
  have m3: "map_of (waiters c3) (request_sync request) = Some ?w" using m2 same3 by simp
  have u3: "unresolved ?w c3" using u1 same2 same3 by (simp add: unresolved_iff)
  have o3: "outcome_of ?w c3 = None"
    using u3 by (simp add: unresolved_iff outcome_of_def map_of_eq_None_iff)
  have d: "\<And>sched. dispatch unpackb decode (Suc n) encode sched c =
      send_loop unpackb decode (Suc n) request sched None c2"
    unfolding dispatch_eq rq' c2 c1 by simp
  have susp: "dispatch unpackb decode (Suc n) encode [] c = (Suspended, c3)"
    unfolding d using sa3 o3 by (simp add: next_acts_def)
  have only: "\<forall>d w d'. send_attempt request d = (Inr w, d') \<longrightarrow>
            map_of (waiters d) (request_sync request) = Some w"
    using send_attempt_Inr by blast
  have none: "\<forall>d. map_of (waiters d) (request_sync request) = None \<longrightarrow>
            send_attempt request d = (Inl (KeyError (request_sync request)), d)"
    using send_attempt_no_waiter by blast
  have ex: "\<exists>wb. write_buf c2 = Some wb \<and>
            c3 = c2\<lparr>write_buf := Some (wb @ request_bytes request), write_event := Some True\<rparr>"
    using b c3' by blast
  have arrive: "\<forall>r. sync r = request_sync request \<longrightarrow>
            outcome_of ?w (deliver r c3) =
              Some (if return_code r \<noteq> 0
                    then Exc (DatabaseError (return_code r) (return_message r)) else Res r) \<and>
            map_of (waiters (deliver r c3)) (request_sync request) = None \<and>
            (\<forall>r'. sync r' = request_sync request \<longrightarrow>
               deliver r' (deliver r c3) = (deliver r c3)\<lparr>log := log (deliver r c3) @ [r']\<rparr>)"
  proof (intro allI impI)
    fix r :: response assume e: "sync r = request_sync request"
    have m: "map_of (waiters c3) (sync r) = Some ?w" using m3 e by simp
    have a1: "outcome_of ?w (deliver r c3) =
              Some (if return_code r \<noteq> 0
                    then Exc (DatabaseError (return_code r) (return_message r)) else Res r)"
      using deliver_resolves_once [OF ok3 m] by blast
    have a2: "map_of (waiters (deliver r c3)) (request_sync request) = None"
      using deliver_twice [OF m refl] e by simp
    have a3: "\<forall>r'. sync r' = request_sync request \<longrightarrow>
               deliver r' (deliver r c3) = (deliver r c3)\<lparr>log := log (deliver r c3) @ [r']\<rparr>"
    proof (intro allI impI)
      fix r' :: response assume "sync r' = request_sync request"
      then have "sync r' = sync r" using e by simp
      with m show "deliver r' (deliver r c3) = (deliver r c3)\<lparr>log := log (deliver r c3) @ [r']\<rparr>"
        using deliver_twice by blast
    qed
    from a1 a2 a3 show "outcome_of ?w (deliver r c3) =
              Some (if return_code r \<noteq> 0
                    then Exc (DatabaseError (return_code r) (return_message r)) else Res r) \<and>
            map_of (waiters (deliver r c3)) (request_sync request) = None \<and>
            (\<forall>r'. sync r' = request_sync request \<longrightarrow>
               deliver r' (deliver r c3) = (deliver r c3)\<lparr>log := log (deliver r c3) @ [r']\<rparr>)"
      by blast
  qed
  have first: "\<forall>tmp_buf sched r.
            tmp_buf \<noteq> [] \<and> \<not> reader_waits c \<and>
            5 + unpackb (slice (reader_buf c2 @ tmp_buf) 0 5) \<le> length (reader_buf c2 @ tmp_buf) \<and>
            r = decode (slice (reader_buf c2 @ tmp_buf) 5
                  (5 + unpackb (slice (reader_buf c2 @ tmp_buf) 0 5))) \<and>
            sync r = request_sync request \<longrightarrow>
            map_of (waiters (run_activities unpackb decode [Recv tmp_buf] c3))
              (request_sync request) = None \<and>
            dispatch unpackb decode (Suc n) encode ([Recv tmp_buf] # sched) c =
              (if return_code r \<noteq> 0
               then (Raised (DatabaseError (return_code r) (return_message r)),
                     run_activities unpackb decode [Recv tmp_buf] c3)
               else if completion_status r \<noteq> 1
               then (Returned r, run_activities unpackb decode [Recv tmp_buf] c3)
               else send_loop unpackb decode n request sched (Some r)
                      (retry_register request r
                         (run_activities unpackb decode [Recv tmp_buf] c3)))"
  proof (intro allI impI)
    fix tmp_buf :: bytes and sched :: "activity list list" and r :: response
    assume h: "tmp_buf \<noteq> [] \<and> \<not> reader_waits c \<and>
            5 + unpackb (slice (reader_buf c2 @ tmp_buf) 0 5) \<le> length (reader_buf c2 @ tmp_buf) \<and>
            r = decode (slice (reader_buf c2 @ tmp_buf) 5
                  (5 + unpackb (slice (reader_buf c2 @ tmp_buf) 0 5))) \<and>
            sync r = request_sync request"
    define c4 where "c4 = run_activities unpackb decode [Recv tmp_buf] c3"
    from h have ne: "tmp_buf \<noteq> []" and nw0: "\<not> reader_waits c"
      and e: "sync r = request_sync request" by blast+
    have nw: "\<not> reader_waits c3" using nw0 rw3 by simp
    have fr: "5 + unpackb (slice (reader_buf c3 @ tmp_buf) 0 5) \<le> length (reader_buf c3 @ tmp_buf)"
      and rr: "r = decode (slice (reader_buf c3 @ tmp_buf) 5
                  (5 + unpackb (slice (reader_buf c3 @ tmp_buf) 0 5)))"
      using h unfolding rb3 by blast+
    have m: "map_of (waiters c3) (sync r) = Some ?w" using m3 e by simp
    have c4e: "c4 = reader_body unpackb decode tmp_buf c3"
      unfolding c4_def using k3 nw ne by (simp add: reader_pass_nonempty)
    have rbf: "outcome_of ?w (reader_body unpackb decode tmp_buf c3) =
           Some (if return_code r \<noteq> 0
                 then Exc (DatabaseError (return_code r) (return_message r)) else Res r) \<and>
         map_of (waiters (reader_body unpackb decode tmp_buf c3)) (sync r) = None"
      using ok3 fr rr m by (rule reader_body_first_frame)
    have o4: "outcome_of ?w c4 =
           Some (if return_code r \<noteq> 0
                 then Exc (DatabaseError (return_code r) (return_message r)) else Res r)"
      and w4: "map_of (waiters c4) (request_sync request) = None"
      using rbf e unfolding c4e by simp_all
    have na: "next_acts ([Recv tmp_buf] # sched) = [Recv tmp_buf]" by (simp add: next_acts_def)
    have sl: "send_loop unpackb decode (Suc n) request ([Recv tmp_buf] # sched) None c2 =
        (case outcome_of ?w c4 of
           None \<Rightarrow> (Suspended, c4)
         | Some Cancelled \<Rightarrow> (Raised CancelledError, c4)
         | Some (Exc e) \<Rightarrow> (Raised e, c4)
         | Some (Res r) \<Rightarrow>
             (if completion_status r \<noteq> 1 then (Returned r, c4)
              else send_loop unpackb decode n request sched (Some r)
                     (retry_register request r c4)))"
      unfolding c4_def by (simp only: send_loop.simps sa3 na prod.case sum.case Let_def list.sel)
    have res: "dispatch unpackb decode (Suc n) encode ([Recv tmp_buf] # sched) c =
              (if return_code r \<noteq> 0
               then (Raised (DatabaseError (return_code r) (return_message r)), c4)
               else if completion_status r \<noteq> 1
               then (Returned r, c4)
               else send_loop unpackb decode n request sched (Some r)
                      (retry_register request r c4))"
      unfolding d sl o4 by simp
    from w4 res show "map_of (waiters (run_activities unpackb decode [Recv tmp_buf] c3))
              (request_sync request) = None \<and>
            dispatch unpackb decode (Suc n) encode ([Recv tmp_buf] # sched) c =
              (if return_code r \<noteq> 0
               then (Raised (DatabaseError (return_code r) (return_message r)),
                     run_activities unpackb decode [Recv tmp_buf] c3)
               else if completion_status r \<noteq> 1
               then (Returned r, run_activities unpackb decode [Recv tmp_buf] c3)
               else send_loop unpackb decode n request sched (Some r)
                      (retry_register request r
                         (run_activities unpackb decode [Recv tmp_buf] c3)))"
      unfolding c4_def by blast
  qed
  have again: "\<forall>r d. map_of (waiters (retry_register request r d)) (request_sync request) =
                   Some (next_future d) \<and>
                 outbound (retry_register request r d) = outbound d"
    using retry_register_frame by blast
  from f have f1: "map_of (waiters c1) (request_sync request) = Some ?w"
    and f2: "unresolved ?w c1" and f3: "?w \<notin> set (map snd (waiters c))" by blast+
  show ?thesis
    by (rule conjI [OF f1 conjI [OF f2 conjI [OF f3 conjI [OF wb1 conjI [OF s1 conjI [OF only
          conjI [OF none conjI [OF ex conjI [OF susp conjI [OF m3 conjI [OF u3
          conjI [OF arrive conjI [OF first again]]]]]]]]]]]]])
qed

theorem dispatch_registers_waiter_before_send_witness:
  "waiters_ok (connect init_conn) \<and> connected (connect init_conn) \<and>
   write_buf (connect init_conn) = Some [] \<and>
   new_request (\<lambda>s. [7, 7]) (connect init_conn) =
     (\<lparr>request_sync = 1, request_bytes = [7, 7]\<rparr>, snd (generate_sync (connect init_conn))) \<and>
   map_of (waiters (snd (generate_sync (connect init_conn)))) 1 = Some 0 \<and>
   write_buf (snd (generate_sync (connect init_conn))) = Some [] \<and>
   dispatch uint32 tiny_response (Suc 2) (\<lambda>s. [7, 7]) [] (connect init_conn) =
     (Suspended,
      snd (send_attempt \<lparr>request_sync = 1, request_bytes = [7, 7]\<rparr>
             (snd (generate_sync (connect init_conn))))) \<and>
   map_of (waiters (snd (send_attempt \<lparr>request_sync = 1, request_bytes = [7, 7]\<rparr>
             (snd (generate_sync (connect init_conn)))))) 1 = Some 0 \<and>
   write_buf (snd (send_attempt \<lparr>request_sync = 1, request_bytes = [7, 7]\<rparr>
             (snd (generate_sync (connect init_conn))))) = Some [7, 7] \<and>
   outcome_of 0
     (deliver (tiny_response [1, 0, 0])
        (snd (send_attempt \<lparr>request_sync = 1, request_bytes = [7, 7]\<rparr>
                (snd (generate_sync (connect init_conn)))))) =
     Some (Res (tiny_response [1, 0, 0])) \<and>
   fst (dispatch uint32 tiny_response (Suc 2) (\<lambda>s. [7, 7]) [[Recv (tiny_frame 1 5 0)]]
          (connect init_conn)) = Raised (DatabaseError 5 []) \<and>
   fst (dispatch uint32 tiny_response (Suc 2) (\<lambda>s. [7, 7]) [[Recv (tiny_frame 1 0 0)]]
          (connect init_conn)) = Returned (tiny_response [1, 0, 0]) \<and>
   map_of (waiters (run_activities uint32 tiny_response [Recv (tiny_frame 1 0 1)]
      (snd (send_attempt \<lparr>request_sync = 1, request_bytes = [7, 7]\<rparr>
              (snd (generate_sync (connect init_conn))))))) 1 = None"
proof -
  let ?rq = "\<lparr>request_sync = 1, request_bytes = [7, 7]\<rparr> :: request"
  let ?c = "connect init_conn"
  let ?c1 = "snd (generate_sync ?c)"
  let ?c3 = "snd (send_attempt ?rq ?c1)"
  let ?r = "tiny_response [1, 0, 0]"
  let ?e = "tiny_response [1, 5, 0]"
  let ?a = "tiny_response [1, 0, 1]"
  have h1: "waiters_ok ?c" by code_simp
  have k: "connected ?c" by code_simp
  have wb: "write_buf ?c = Some []" by code_simp
  have h2: "connected ?c \<longrightarrow> write_buf ?c \<noteq> None" using wb by simp
  have h3: "new_request (\<lambda>s. [7, 7]) ?c = (?rq, ?c1)" by code_simp
  have h4: "?c1 = (if \<not> connected ?c1 then connect ?c1 else ?c1)" by code_simp
  have h5: "?c3 = snd (send_attempt ?rq ?c1)" by (rule refl)
  have n: "next_future ?c = 0" by code_simp
  have q: "request_sync ?rq = 1" by simp
  have x2: "write_buf ?c3 = Some [7, 7]" by code_simp
  note t = dispatch_registers_waiter_before_send
    [where c = ?c and encode = "\<lambda>s. [7, 7]" and request = ?rq and ?c1.0 = ?c1
       and ?c2.0 = ?c1 and ?c3.0 = ?c3 and unpackb = uint32 and decode = tiny_response
       and n = 2, OF h1 h2 h3 h4 h5]
  note t9 = t [THEN conjunct2, THEN conjunct2, THEN conjunct2, THEN conjunct2,
    THEN conjunct2, THEN conjunct2, THEN conjunct2, THEN conjunct2]
  note susp = t9 [THEN conjunct1]
  note m3 = t9 [THEN conjunct2, THEN conjunct1]
  note arrive = t9 [THEN conjunct2, THEN conjunct2, THEN conjunct2, THEN conjunct1]
  note first = t9 [THEN conjunct2, THEN conjunct2, THEN conjunct2, THEN conjunct2,
    THEN conjunct1]
  have a: "map_of (waiters ?c1) 1 = Some 0" using t [THEN conjunct1] by (simp only: n q)
  have b0: "write_buf ?c1 = write_buf ?c"
    using t [THEN conjunct2, THEN conjunct2, THEN conjunct2, THEN conjunct1] .
  have b: "write_buf ?c1 = Some []" using b0 by (simp only: wb)
  have m: "map_of (waiters ?c3) 1 = Some 0" using m3 by (simp only: n q)
  have er: "sync ?r = request_sync ?rq" by code_simp
  have vr: "(if return_code ?r \<noteq> 0
            then Exc (DatabaseError (return_code ?r) (return_message ?r)) else Res ?r) = Res ?r"
    by code_simp
  have d0: "outcome_of (next_future ?c) (deliver ?r ?c3) =
      Some (if return_code ?r \<noteq> 0
            then Exc (DatabaseError (return_code ?r) (return_message ?r)) else Res ?r)"
    using arrive [THEN spec, of ?r] er by blast
  have d: "outcome_of 0 (deliver ?r ?c3) = Some (Res ?r)" using d0 by (simp only: n vr)
  have g1: "tiny_frame 1 5 0 \<noteq> [] \<and> \<not> reader_waits ?c \<and>
      5 + uint32 (slice (reader_buf ?c1 @ tiny_frame 1 5 0) 0 5) \<le>
        length (reader_buf ?c1 @ tiny_frame 1 5 0) \<and>
      ?e = tiny_response (slice (reader_buf ?c1 @ tiny_frame 1 5 0) 5
             (5 + uint32 (slice (reader_buf ?c1 @ tiny_frame 1 5 0) 0 5))) \<and>
      sync ?e = request_sync ?rq"
    by code_simp
  have g2: "tiny_frame 1 0 0 \<noteq> [] \<and> \<not> reader_waits ?c \<and>
      5 + uint32 (slice (reader_buf ?c1 @ tiny_frame 1 0 0) 0 5) \<le>
        length (reader_buf ?c1 @ tiny_frame 1 0 0) \<and>
      ?r = tiny_response (slice (reader_buf ?c1 @ tiny_frame 1 0 0) 5
             (5 + uint32 (slice (reader_buf ?c1 @ tiny_frame 1 0 0) 0 5))) \<and>
      sync ?r = request_sync ?rq"
    by code_simp
  have g3: "tiny_frame 1 0 1 \<noteq> [] \<and> \<not> reader_waits ?c \<and>
      5 + uint32 (slice (reader_buf ?c1 @ tiny_frame 1 0 1) 0 5) \<le>
        length (reader_buf ?c1 @ tiny_frame 1 0 1) \<and>
      ?a = tiny_response (slice (reader_buf ?c1 @ tiny_frame 1 0 1) 5
             (5 + uint32 (slice (reader_buf ?c1 @ tiny_frame 1 0 1) 0 5))) \<and>
      sync ?a = request_sync ?rq"
    by code_simp
  note f1 = first [THEN spec, of "tiny_frame 1 5 0", THEN spec, of "[]", THEN spec, of ?e,
    THEN mp, OF g1]
  note f2 = first [THEN spec, of "tiny_frame 1 0 0", THEN spec, of "[]", THEN spec, of ?r,
    THEN mp, OF g2]
  note f3 = first [THEN spec, of "tiny_frame 1 0 1", THEN spec, of "[]", THEN spec, of ?a,
    THEN mp, OF g3]
  have p1: "fst (dispatch uint32 tiny_response (Suc 2) (\<lambda>s. [7, 7]) [[Recv (tiny_frame 1 5 0)]]
          ?c) = Raised (DatabaseError 5 [])"
    unfolding f1 [THEN conjunct2] by code_simp
  have p2: "fst (dispatch uint32 tiny_response (Suc 2) (\<lambda>s. [7, 7]) [[Recv (tiny_frame 1 0 0)]]
          ?c) = Returned ?r"
    unfolding f2 [THEN conjunct2] by code_simp
  have p3: "map_of (waiters (run_activities uint32 tiny_response [Recv (tiny_frame 1 0 1)] ?c3))
      1 = None"
    using f3 [THEN conjunct1] by (simp only: q)
  show ?thesis
    by (rule conjI [OF h1 conjI [OF k conjI [OF wb conjI [OF h3 conjI [OF a conjI [OF b
          conjI [OF susp conjI [OF m conjI [OF x2 conjI [OF d conjI [OF p1
          conjI [OF p2 p3]]]]]]]]]]]])
qed

end
